theory Spec2Isabelle
  imports Complex_Main "HOL-Library.AList"
begin

section \<open>Transaction monitor (crossChainClient.ts)\<close>

subsection \<open>Data model (schemas.ts)\<close>

text \<open>
  \<^verbatim>\<open>CrossChainStatusResponseSchema\<close>: the \<^verbatim>\<open>status\<close> field is a \<^verbatim>\<open>z.enum\<close> of
  seventeen strings, \<^verbatim>\<open>subStatus\<close> an optional enum of six. The constructors keep the
  strings of the schema (the sub-status \<^verbatim>\<open>"unknown"\<close> is written \<open>sub_unknown\<close>).
\<close>

datatype status_enum =
    origin_tx_succeeded
  | origin_tx_confirmed
  | origin_tx_reverted
  | bridge_pending
  | bridge_delayed
  | bridge_filled
  | bridge_failed
  | refund_pending
  | refund_succeeded
  | refund_failed
  | destination_tx_pending
  | destination_tx_confirmed
  | destination_tx_reverted
  | destination_tx_succeeded
  | destination_tx_failed
  | not_found
  | unknown

datatype subStatus_enum =
    insufficient_allowance
  | insufficient_balance
  | failed_simulation
  | expired
  | internal
  | sub_unknown

record TransactionInfo =
  chainId :: int
  chain :: string
  txHash :: string
  timestamp :: int

record CrossChainStatusResponse =
  status :: status_enum
  subStatus :: "subStatus_enum option"
  bridge :: "string option"
  transactions :: "TransactionInfo list"
  zid :: string

datatype chain_ref = ChainName string | ChainNumber int

record CrossChainStatusRequest =
  originChain :: chain_ref
  originTxHash :: string

text \<open>The members of the \<^verbatim>\<open>z.enum\<close> of \<^verbatim>\<open>status\<close>, in the order of the schema.\<close>

definition status_values :: "status_enum list" where
  "status_values =
     [origin_tx_succeeded, origin_tx_confirmed, origin_tx_reverted,
      bridge_pending, bridge_delayed, bridge_filled, bridge_failed,
      refund_pending, refund_succeeded, refund_failed,
      destination_tx_pending, destination_tx_confirmed, destination_tx_reverted,
      destination_tx_succeeded, destination_tx_failed, not_found, unknown]"

subsection \<open>Thrown values and observable effects\<close>

text \<open>
  What a \<^verbatim>\<open>throw\<close> can carry here: the failures of \<^verbatim>\<open>getStatus\<close> (the transport
  failing, a response that is not ok, a body that is not JSON, a payload the schema
  rejects), whatever a caller's \<^verbatim>\<open>onUpdate\<close> throws, and the error of the monitor
  itself, \<^verbatim>\<open>Transaction monitoring timed out after ${maxAttempts} attempts\<close>.
\<close>

datatype thrown =
    NetworkError string
  | RemoteError int string string
  | JsonSyntaxError string
  | SchemaViolation string
  | CallbackError string
  | MonitoringTimedOut int

text \<open>
  The effects of one run, in the order they happen: a call of \<^verbatim>\<open>getStatus\<close>, a call of
  \<^verbatim>\<open>onUpdate\<close> with its argument, a \<^verbatim>\<open>setTimeout\<close> that is awaited with its delay,
  and a \<^verbatim>\<open>console.warn\<close> with the attempt number it prints and the error.
\<close>

datatype effect =
    GetStatus CrossChainStatusRequest
  | OnUpdate CrossChainStatusResponse
  | SetTimeout int
  | ConsoleWarn nat thrown

type_synonym world = "effect list"

fun is_GetStatus :: "effect \<Rightarrow> bool" where
  "is_GetStatus (GetStatus _) = True"
| "is_GetStatus _ = False"

fun is_OnUpdate :: "effect \<Rightarrow> bool" where
  "is_OnUpdate (OnUpdate _) = True"
| "is_OnUpdate _ = False"

fun is_SetTimeout :: "effect \<Rightarrow> bool" where
  "is_SetTimeout (SetTimeout _) = True"
| "is_SetTimeout _ = False"

definition fetch_count :: "world \<Rightarrow> nat" where
  "fetch_count w = length (filter is_GetStatus w)"

definition update_count :: "world \<Rightarrow> nat" where
  "update_count w = length (filter is_OnUpdate w)"

definition sleep_count :: "world \<Rightarrow> nat" where
  "sleep_count w = length (filter is_SetTimeout w)"

text \<open>The arguments \<^verbatim>\<open>onUpdate\<close> was called with, and the delays awaited, in order.\<close>

fun updates_of :: "world \<Rightarrow> CrossChainStatusResponse list" where
  "updates_of [] = []"
| "updates_of (OnUpdate s # w) = s # updates_of w"
| "updates_of (_ # w) = updates_of w"

fun sleeps_of :: "world \<Rightarrow> int list" where
  "sleeps_of [] = []"
| "sleeps_of (SetTimeout d # w) = d # sleeps_of w"
| "sleeps_of (_ # w) = sleeps_of w"

subsection \<open>The environment: status endpoint and callback\<close>

text \<open>
  \<^verbatim>\<open>getStatus\<close> is one HTTP round trip followed by the schema's \<^verbatim>\<open>parse\<close>; it returns
  a validated response or throws. Its outcome is the environment's: the \<open>n\<close>-th call
  (counted from 0 over the whole run) yields \<open>fetcher n request\<close>.

  \<^verbatim>\<open>onUpdate\<close> is the caller's function. It is handed the very object that the
  monitor goes on to test and to return, so it can change it; and like any function it
  may throw. \<open>callback n status\<close> is \<open>Inl e\<close> when its \<open>n\<close>-th call throws \<open>e\<close>, and
  \<open>Inr status'\<close> when it returns having left the object as \<open>status'\<close> (as \<open>status\<close>,
  when it only reads it). A call of the endpoint or of the callback that never comes
  back is not represented.

  The numbers \<^verbatim>\<open>maxAttempts\<close> and \<^verbatim>\<open>intervalMs\<close> are taken to be integers, of any
  sign; an option that is left out is \<open>None\<close>.
\<close>

type_synonym fetcher = "nat \<Rightarrow> CrossChainStatusRequest \<Rightarrow> thrown + CrossChainStatusResponse"

type_synonym callback =
  "nat \<Rightarrow> CrossChainStatusResponse \<Rightarrow> thrown + CrossChainStatusResponse"

record options =
  maxAttempts :: "int option"
  intervalMs :: "int option"
  onUpdate :: "callback option"

definition getStatus ::
  "fetcher \<Rightarrow> CrossChainStatusRequest \<Rightarrow> world \<Rightarrow> (thrown + CrossChainStatusResponse) \<times> world" where
  "getStatus f request w = (f (fetch_count w) request, w @ [GetStatus request])"

text \<open>
  \<^verbatim>\<open>if (onUpdate) { onUpdate(status); }\<close>: the result is the exception thrown, or the
  object \<^verbatim>\<open>status\<close> as it is after the statement. The trace records the object as it
  was handed over.
\<close>

definition call_onUpdate ::
  "callback option \<Rightarrow> CrossChainStatusResponse \<Rightarrow> world
     \<Rightarrow> (thrown + CrossChainStatusResponse) \<times> world" where
  "call_onUpdate cb s w =
     (case cb of
        None \<Rightarrow> (Inr s, w)
      | Some g \<Rightarrow> (g (update_count w) s, w @ [OnUpdate s]))"

text \<open>\<^verbatim>\<open>await new Promise((resolve) => setTimeout(resolve, intervalMs))\<close>\<close>

definition sleep :: "int \<Rightarrow> world \<Rightarrow> world" where
  "sleep ms w = w @ [SetTimeout ms]"

subsection \<open>monitorTransaction\<close>

definition finalStates :: "status_enum list" where
  "finalStates =
     [destination_tx_succeeded, destination_tx_failed, destination_tx_reverted,
      bridge_failed, bridge_filled, refund_succeeded, refund_failed,
      origin_tx_reverted]"

text \<open>How one pass through the body of the \<^verbatim>\<open>for\<close> loop ends.\<close>

datatype completion =
    Return CrossChainStatusResponse
  | Throw thrown
  | NextIteration

text \<open>
  The \<^verbatim>\<open>catch (error)\<close> block: warn with the 1-based attempt number, rethrow on the
  last attempt, otherwise wait and fall through to the next iteration.
\<close>

definition catch_block :: "int \<Rightarrow> int \<Rightarrow> nat \<Rightarrow> thrown \<Rightarrow> world \<Rightarrow> completion \<times> world" where
  "catch_block maxA ms attempt e w =
     (let w1 = w @ [ConsoleWarn (attempt + 1) e] in
      if int attempt = maxA - 1 then (Throw e, w1)
      else (NextIteration, sleep ms w1))"

text \<open>
  The \<^verbatim>\<open>try\<close> block with its handler: everything between \<^verbatim>\<open>try {\<close> and
  \<^verbatim>\<open>} catch\<close>, the call of \<^verbatim>\<open>onUpdate\<close> included, is guarded. \<open>s\<close> is the object
  as fetched and \<open>s'\<close> the same object after the callback: it is \<open>s'\<close> that
  \<^verbatim>\<open>finalStates.includes(status.status)\<close> tests and \<^verbatim>\<open>return status\<close> returns.
\<close>

definition loop_body ::
  "fetcher \<Rightarrow> callback option \<Rightarrow> CrossChainStatusRequest \<Rightarrow> int \<Rightarrow> int \<Rightarrow> nat \<Rightarrow> world
     \<Rightarrow> completion \<times> world" where
  "loop_body f cb request maxA ms attempt w =
     (case getStatus f request w of
        (Inl e, w1) \<Rightarrow> catch_block maxA ms attempt e w1
      | (Inr s, w1) \<Rightarrow>
          (case call_onUpdate cb s w1 of
             (Inl e, w2) \<Rightarrow> catch_block maxA ms attempt e w2
           | (Inr s', w2) \<Rightarrow>
               if status s' \<in> set finalStates then (Return s', w2)
               else if int attempt < maxA - 1 then (NextIteration, sleep ms w2)
               else (NextIteration, w2)))"

text \<open>
  \<^verbatim>\<open>for (let attempt = 0; attempt < maxAttempts; attempt++) { ... }\<close> followed by the
  final \<^verbatim>\<open>throw new Error(...)\<close>.
\<close>

function monitor_loop ::
  "fetcher \<Rightarrow> callback option \<Rightarrow> CrossChainStatusRequest \<Rightarrow> int \<Rightarrow> int \<Rightarrow> nat \<Rightarrow> world
     \<Rightarrow> (thrown + CrossChainStatusResponse) \<times> world" where
  "monitor_loop f cb request maxA ms attempt w =
     (if int attempt < maxA then
        (case loop_body f cb request maxA ms attempt w of
           (Return s, w') \<Rightarrow> (Inr s, w')
         | (Throw e, w') \<Rightarrow> (Inl e, w')
         | (NextIteration, w') \<Rightarrow> monitor_loop f cb request maxA ms (Suc attempt) w')
      else (Inl (MonitoringTimedOut maxA), w))"
  by pat_completeness auto
termination
  by (relation "measure (\<lambda>(f, cb, request, maxA, ms, attempt, w). nat (maxA - int attempt))") auto

declare monitor_loop.simps [simp del]

text \<open>
  \<^verbatim>\<open>const { maxAttempts = 60, intervalMs = 5000, onUpdate } = options;\<close> and the loop,
  started in a world where nothing has happened yet.
\<close>

definition maxAttempts_of :: "options \<Rightarrow> int" where
  "maxAttempts_of opts = (case maxAttempts opts of None \<Rightarrow> 60 | Some n \<Rightarrow> n)"

definition intervalMs_of :: "options \<Rightarrow> int" where
  "intervalMs_of opts = (case intervalMs opts of None \<Rightarrow> 5000 | Some n \<Rightarrow> n)"

definition monitorTransaction ::
  "fetcher \<Rightarrow> CrossChainStatusRequest \<Rightarrow> options
     \<Rightarrow> (thrown + CrossChainStatusResponse) \<times> world" where
  "monitorTransaction f request opts =
     monitor_loop f (onUpdate opts) request (maxAttempts_of opts) (intervalMs_of opts) 0 []"

subsection \<open>Expected traces\<close>

text \<open>The effect of \<^verbatim>\<open>if (onUpdate) { onUpdate(status); }\<close> on the trace.\<close>

definition notify :: "callback option \<Rightarrow> CrossChainStatusResponse \<Rightarrow> world" where
  "notify cb s = (case cb of None \<Rightarrow> [] | Some g \<Rightarrow> [OnUpdate s])"

text \<open>The statuses fetched successfully by the calls \<open>lo, \<dots>, hi - 1\<close>, in order.\<close>

definition successes ::
  "fetcher \<Rightarrow> CrossChainStatusRequest \<Rightarrow> nat \<Rightarrow> nat \<Rightarrow> CrossChainStatusResponse list" where
  "successes f request lo hi =
     List.map_filter (\<lambda>i. case f i request of Inl e \<Rightarrow> None | Inr s \<Rightarrow> Some s) [lo..<hi]"

text \<open>
  What the callback makes of the status \<open>s\<close> on its \<open>n\<close>-th call; without a callback the
  object stays as it is.
\<close>

definition after_callback ::
  "callback option \<Rightarrow> nat \<Rightarrow> CrossChainStatusResponse \<Rightarrow> thrown + CrossChainStatusResponse" where
  "after_callback cb n s = (case cb of None \<Rightarrow> Inr s | Some g \<Rightarrow> g n s)"

text \<open>
  In a run from the start, attempt \<open>i\<close> (0-based) makes call \<open>i\<close> of the endpoint, and
  its call of the callback, if it makes one, is preceded by one call for each earlier
  fetch that succeeded. \<open>after_attempt\<close> is what the attempt ends with before the status
  is tested: an exception, of the fetch or of the callback, or the status object.
\<close>

definition after_attempt ::
  "fetcher \<Rightarrow> callback option \<Rightarrow> CrossChainStatusRequest \<Rightarrow> nat
     \<Rightarrow> thrown + CrossChainStatusResponse" where
  "after_attempt f cb request i =
     (case f i request of
        Inl e \<Rightarrow> Inl e
      | Inr s \<Rightarrow> after_callback cb (length (successes f request 0 i)) s)"

text \<open>
  The trace of an attempt that goes on to the next one: the fetch, the notification if
  the fetch succeeded, the warning if the fetch or the callback threw, and a wait unless
  the attempt is the last one of the budget.
\<close>

definition attempt_trace ::
  "fetcher \<Rightarrow> callback option \<Rightarrow> CrossChainStatusRequest \<Rightarrow> int \<Rightarrow> int \<Rightarrow> nat \<Rightarrow> world" where
  "attempt_trace f cb request maxA ms i =
     GetStatus request
     # (case f i request of Inl e \<Rightarrow> [] | Inr s \<Rightarrow> notify cb s)
     @ (case after_attempt f cb request i of Inl e \<Rightarrow> [ConsoleWarn (i + 1) e] | Inr s' \<Rightarrow> [])
     @ (if int i < maxA - 1 then [SetTimeout ms] else [])"

definition attempts_trace ::
  "fetcher \<Rightarrow> callback option \<Rightarrow> CrossChainStatusRequest \<Rightarrow> int \<Rightarrow> int \<Rightarrow> nat \<Rightarrow> nat
     \<Rightarrow> world" where
  "attempts_trace f cb request maxA ms lo hi =
     concat (map (attempt_trace f cb request maxA ms) [lo..<hi])"

text \<open>
  Attempt \<open>i\<close> goes on to the next one: what it throws is not thrown on the last attempt
  of the budget, and the status it is left with is not final.
\<close>

definition goes_on ::
  "fetcher \<Rightarrow> callback option \<Rightarrow> CrossChainStatusRequest \<Rightarrow> int \<Rightarrow> nat \<Rightarrow> bool" where
  "goes_on f cb request maxA i \<longleftrightarrow>
     (case after_attempt f cb request i of
        Inl e \<Rightarrow> int i \<noteq> maxA - 1
      | Inr s' \<Rightarrow> status s' \<notin> set finalStates)"

section \<open>Streaming quotes (StreamingQuote.tsx)\<close>

subsection \<open>Values of the language\<close>

text \<open>
  What \<^verbatim>\<open>JSON.parse\<close> returns is untyped: the casts \<^verbatim>\<open>data as FatalError\<close> and
  \<^verbatim>\<open>data as StreamEvent\<close> check nothing at run time. A value is one of the JSON
  values or \<^verbatim>\<open>undefined\<close>, which reading an absent property yields. The properties of
  an object are listed in the order the language enumerates them; a number is the
  rational it denotes.

  Text is a list of characters. \<^verbatim>\<open>TextDecoder.decode(value, {stream: true})\<close> holds
  back an incomplete byte sequence until the bytes that complete it arrive, so the
  text decoded from two successive chunks is the text decoded from their concatenation,
  and a chunk is taken here as the text it decodes to.
\<close>

datatype js =
    JUndefined
  | JNull
  | JBool bool
  | JNumber rat
  | JString string
  | JArray "js list"
  | JObject "(string \<times> js) list"

text \<open>
  The two built-in functions whose result is not computed here: \<^verbatim>\<open>JSON.parse\<close>
  (\<open>None\<close> when it throws a \<^verbatim>\<open>SyntaxError\<close>) and the conversion of a number to its
  decimal text.
\<close>

record builtins =
  JSON_parse :: "string \<Rightarrow> js option"
  Number_toString :: "rat \<Rightarrow> string"

text \<open>An exception: an \<^verbatim>\<open>Error\<close> object with its name and message, or any other value.\<close>

datatype exn = Error string string | NonError

definition TypeError :: "string \<Rightarrow> exn" where
  "TypeError msg = Error ''TypeError'' msg"

definition SyntaxError :: "string \<Rightarrow> exn" where
  "SyntaxError msg = Error ''SyntaxError'' msg"

text \<open>
  Reading a property \<^verbatim>\<open>v.name\<close>, for the names this component reads (\<^verbatim>\<open>error\<close>,
  \<^verbatim>\<open>message\<close>, \<^verbatim>\<open>data\<close>, \<^verbatim>\<open>event\<close>, \<^verbatim>\<open>type\<close>, \<^verbatim>\<open>route\<close>, \<^verbatim>\<open>allowanceTarget\<close>,
  \<^verbatim>\<open>zid\<close>, \<^verbatim>\<open>liquidityAvailable\<close>): none of them is an index, \<^verbatim>\<open>length\<close> or a
  property of a prototype, so only an object can have one. Reading from \<^verbatim>\<open>null\<close> or
  \<^verbatim>\<open>undefined\<close> throws a \<^verbatim>\<open>TypeError\<close>.
\<close>

fun get_prop :: "js \<Rightarrow> string \<Rightarrow> exn + js" where
  "get_prop JUndefined name = Inl (TypeError ''Cannot read properties of undefined'')"
| "get_prop JNull name = Inl (TypeError ''Cannot read properties of null'')"
| "get_prop (JObject ps) name = (case map_of ps name of None \<Rightarrow> Inr JUndefined | Some v \<Rightarrow> Inr v)"
| "get_prop v name = Inr JUndefined"

text \<open>
  \<^verbatim>\<open>"error" in data\<close>: a \<^verbatim>\<open>TypeError\<close> unless \<^verbatim>\<open>data\<close> is an object or an array; an
  array has no property of that name.
\<close>

fun error_in :: "js \<Rightarrow> exn + bool" where
  "error_in (JObject ps) = Inr (''error'' \<in> fst ` set ps)"
| "error_in (JArray xs) = Inr False"
| "error_in v = Inl (TypeError ''Cannot use in operator'')"

text \<open>The truth value of a value in a condition.\<close>

fun truthy :: "js \<Rightarrow> bool" where
  "truthy JUndefined = False"
| "truthy JNull = False"
| "truthy (JBool b) = b"
| "truthy (JNumber r) = (r \<noteq> 0)"
| "truthy (JString s) = (s \<noteq> [])"
| "truthy (JArray xs) = True"
| "truthy (JObject ps) = True"

text \<open>The decimal text of an index.\<close>

fun digits :: "nat \<Rightarrow> string" where
  "digits n = (if n < 10 then [char_of (48 + n)] else digits (n div 10) @ [char_of (48 + n mod 10)])"

declare digits.simps [simp del]

text \<open>
  Object spread \<^verbatim>\<open>{...v}\<close>: the own enumerable properties of \<open>v\<close>. An object gives its
  properties, an array and a string their elements under their indices, anything else
  nothing.
\<close>

fun spread :: "js \<Rightarrow> (string \<times> js) list" where
  "spread (JObject ps) = ps"
| "spread (JArray xs) = zip (map digits [0..<length xs]) xs"
| "spread (JString s) = zip (map digits [0..<length s]) (map (\<lambda>c. JString [c]) s)"
| "spread v = []"

text \<open>
  The text a template literal \<^verbatim>\<open>${v}\<close> inserts. An array joins the texts of its
  elements with commas, \<^verbatim>\<open>null\<close> and \<^verbatim>\<open>undefined\<close> elements giving the empty text. A
  parsed object inherits \<^verbatim>\<open>toString\<close> and gives \<^verbatim>\<open>[object Object]\<close>, unless it has a
  property \<^verbatim>\<open>toString\<close> of its own: no parsed value is callable, neither is what
  \<^verbatim>\<open>valueOf\<close> then returns a primitive, and the conversion throws a \<^verbatim>\<open>TypeError\<close>
  (\<open>None\<close>).
\<close>

fun to_string :: "(rat \<Rightarrow> string) \<Rightarrow> js \<Rightarrow> string option"
  and join_comma :: "(rat \<Rightarrow> string) \<Rightarrow> js list \<Rightarrow> string option" where
  "to_string ns JUndefined = Some ''undefined''"
| "to_string ns JNull = Some ''null''"
| "to_string ns (JBool b) = Some (if b then ''true'' else ''false'')"
| "to_string ns (JNumber r) = Some (ns r)"
| "to_string ns (JString s) = Some s"
| "to_string ns (JArray xs) = join_comma ns xs"
| "to_string ns (JObject ps) =
     (if ''toString'' \<in> fst ` set ps then None else Some ''[object Object]'')"
| "join_comma ns [] = Some []"
| "join_comma ns (x # xs) =
     (case (if x = JNull \<or> x = JUndefined then Some [] else to_string ns x) of
        None \<Rightarrow> None
      | Some s \<Rightarrow>
          if xs = [] then Some s
          else (case join_comma ns xs of None \<Rightarrow> None | Some t \<Rightarrow> Some (s @ '','' @ t)))"

subsection \<open>Text\<close>

text \<open>
  The white space \<^verbatim>\<open>trim\<close> removes, among the characters below 256: TAB, LF, VT, FF,
  CR, SP and NBSP.
\<close>

definition is_whitespace :: "char \<Rightarrow> bool" where
  "is_whitespace c \<longleftrightarrow>
     c \<in> {CHR 0x09, CHR 0x0A, CHR 0x0B, CHR 0x0C, CHR 0x0D, CHR 0x20, CHR 0xA0}"

definition trim :: "string \<Rightarrow> string" where
  "trim s = rev (dropWhile is_whitespace (rev (dropWhile is_whitespace s)))"

text \<open>
  \<^verbatim>\<open>s.split("\n")\<close>: the pieces of \<open>s\<close> between line feeds. There is always at least
  one piece, and the last one is what follows the last line feed.
\<close>

fun split_newline :: "string \<Rightarrow> string list" where
  "split_newline [] = [[]]"
| "split_newline (c # cs) =
     (if c = CHR 0x0A then [] # split_newline cs
      else (case split_newline cs of [] \<Rightarrow> [[c]] | l # ls \<Rightarrow> (c # l) # ls))"

definition startsWith :: "string \<Rightarrow> string \<Rightarrow> bool" where
  "startsWith s p \<longleftrightarrow> take (length p) s = p"

subsection \<open>The component's state\<close>

text \<open>
  The calls the function makes on the component and on the console, in order. The state
  of the component is what the setters were last given; \<^verbatim>\<open>setRoutes\<close> is called with
  the empty list at the start and afterwards with an updater that appends one route,
  recorded here with the route appended.
\<close>

datatype call =
    SetRoutesEmpty
  | SetRoutesAppend js
  | SetError "string option"
  | SetIsComplete bool
  | SetLiquidityAvailable js
  | SetIsStreaming bool
  | ConsoleInfo js
  | ConsoleError string
  | ConsoleLog string

type_synonym ui = "call list"

text \<open>The state \<^verbatim>\<open>routes\<close> after the calls, starting from the routes \<open>rs\<close>.\<close>

fun routes_from :: "js list \<Rightarrow> ui \<Rightarrow> js list" where
  "routes_from rs [] = rs"
| "routes_from rs (SetRoutesEmpty # u) = routes_from [] u"
| "routes_from rs (SetRoutesAppend r # u) = routes_from (rs @ [r]) u"
| "routes_from rs (_ # u) = routes_from rs u"

definition routes_of :: "ui \<Rightarrow> js list" where
  "routes_of u = routes_from [] u"

subsection \<open>startStreaming\<close>

text \<open>How a block of statements ends: it falls through, returns from the function, or throws.\<close>

datatype flow = Falls | Returns | Throws exn

text \<open>
  \<^verbatim>\<open>if ("error" in data) { ... return; }\<close>, entered: the message is read and converted
  before any setter is called.
\<close>

definition fatal_branch :: "builtins \<Rightarrow> js \<Rightarrow> ui \<Rightarrow> flow \<times> ui" where
  "fatal_branch env data u =
     (case get_prop data ''error'' of
        Inl x \<Rightarrow> (Throws x, u)
      | Inr e \<Rightarrow>
          (case get_prop e ''message'' of
             Inl x \<Rightarrow> (Throws x, u)
           | Inr m \<Rightarrow>
               (case to_string (Number_toString env) m of
                  None \<Rightarrow> (Throws (TypeError ''Cannot convert object to primitive value''), u)
                | Some s \<Rightarrow>
                    (Returns,
                     u @ [SetError (Some (''Fatal error: '' @ s)),
                          SetIsStreaming False, SetIsComplete True]))))"

text \<open>
  The route branch. \<open>d\<close> is \<^verbatim>\<open>streamEvent.data\<close> and \<open>ev\<close> is
  \<^verbatim>\<open>streamEvent.data.event\<close>. A later property of an object literal replaces an
  earlier one of the same name in place and is added at the end otherwise, which is
  what \<open>AList.update\<close> does. The updater given to \<^verbatim>\<open>setRoutes\<close> adds
  \<^verbatim>\<open>displayIndex: prevRoutes.length + 1\<close>.
\<close>

definition normalize_route :: "js \<Rightarrow> js \<Rightarrow> js \<Rightarrow> js \<Rightarrow> (string \<times> js) list" where
  "normalize_route routeData r target z =
     (if truthy r
      then AList.update ''id'' z (AList.update ''allowanceTarget'' target (spread r))
      else AList.update ''id'' z (spread routeData))"

definition route_branch :: "js \<Rightarrow> js \<Rightarrow> ui \<Rightarrow> flow \<times> ui" where
  "route_branch d ev u =
     (case get_prop ev ''data'' of
        Inl x \<Rightarrow> (Throws x, u)
      | Inr routeData \<Rightarrow>
          (case get_prop routeData ''route'' of
             Inl x \<Rightarrow> (Throws x, u)
           | Inr r \<Rightarrow>
               (case get_prop routeData ''allowanceTarget'' of
                  Inl x \<Rightarrow> (Throws x, u)
                | Inr target \<Rightarrow>
                    (case get_prop d ''zid'' of
                       Inl x \<Rightarrow> (Throws x, u)
                     | Inr z \<Rightarrow>
                         (let route = normalize_route routeData r target z;
                              newRoute =
                                AList.update ''displayIndex''
                                  (JNumber (of_nat (length (routes_of u) + 1))) route
                          in (Falls, u @ [SetRoutesAppend (JObject newRoute)]))))))"

text \<open>The result branch.\<close>

definition result_branch :: "js \<Rightarrow> ui \<Rightarrow> flow \<times> ui" where
  "result_branch ev u =
     (case get_prop ev ''data'' of
        Inl x \<Rightarrow> (Throws x, u)
      | Inr result \<Rightarrow>
          (case get_prop result ''liquidityAvailable'' of
             Inl x \<Rightarrow> (Throws x, u)
           | Inr v \<Rightarrow>
               (Returns, u @ [SetLiquidityAvailable v, SetIsStreaming False, SetIsComplete True])))"

text \<open>
  The \<^verbatim>\<open>try\<close> block of one data line, from \<^verbatim>\<open>JSON.parse(eventData)\<close> to the end of
  the \<^verbatim>\<open>else if\<close>. What was done before an exception stays done.
\<close>

definition try_block :: "builtins \<Rightarrow> string \<Rightarrow> ui \<Rightarrow> flow \<times> ui" where
  "try_block env eventData u =
     (case JSON_parse env eventData of
        None \<Rightarrow> (Throws (SyntaxError ''Unexpected token''), u)
      | Some data \<Rightarrow>
          (let u1 = u @ [ConsoleInfo data] in
           case error_in data of
             Inl x \<Rightarrow> (Throws x, u1)
           | Inr True \<Rightarrow> fatal_branch env data u1
           | Inr False \<Rightarrow>
               (case get_prop data ''data'' of
                  Inl x \<Rightarrow> (Throws x, u1)
                | Inr d \<Rightarrow>
                    (case get_prop d ''event'' of
                       Inl x \<Rightarrow> (Throws x, u1)
                     | Inr ev \<Rightarrow>
                         (case get_prop ev ''type'' of
                            Inl x \<Rightarrow> (Throws x, u1)
                          | Inr ty \<Rightarrow>
                              if ty = JString ''route'' then route_branch d ev u1
                              else if ty = JString ''result'' then result_branch ev u1
                              else (Falls, u1))))))"

text \<open>
  The body of \<^verbatim>\<open>for (const line of lines)\<close>: the prefix test, the \<^verbatim>\<open>continue\<close> on an
  empty payload, the \<^verbatim>\<open>try\<close> block and its \<^verbatim>\<open>catch\<close>, which reports and goes on.
\<close>

definition handle_line :: "builtins \<Rightarrow> string \<Rightarrow> ui \<Rightarrow> flow \<times> ui" where
  "handle_line env line u =
     (if startsWith line ''data: '' then
        (let eventData = drop 6 line in
         if trim eventData = [] then (Falls, u)
         else (case try_block env eventData u of
                 (Throws x, u') \<Rightarrow>
                   (Falls, u' @ [ConsoleError eventData,
                                 SetError (Some ''Error parsing server response'')])
               | (Returns, u') \<Rightarrow> (Returns, u')
               | (Falls, u') \<Rightarrow> (Falls, u')))
      else (Falls, u))"

fun for_lines :: "builtins \<Rightarrow> string list \<Rightarrow> ui \<Rightarrow> flow \<times> ui" where
  "for_lines env [] u = (Falls, u)"
| "for_lines env (line # lines) u =
     (case handle_line env line u of
        (Falls, u') \<Rightarrow> for_lines env lines u'
      | (fl, u') \<Rightarrow> (fl, u'))"

text \<open>
  One pass through \<^verbatim>\<open>while (true)\<close> after a chunk has been read: append it to the
  buffer, split, keep what \<^verbatim>\<open>lines.pop() || ""\<close> gives as the new buffer and handle
  the lines that are left. The result carries the new buffer.
\<close>

definition on_chunk :: "builtins \<Rightarrow> string \<Rightarrow> string \<Rightarrow> ui \<Rightarrow> flow \<times> ui \<times> string" where
  "on_chunk env value buffer u =
     (let buffer1 = buffer @ value;
          lines = split_newline buffer1;
          buffer2 = (if lines = [] then [] else last lines);
          lines1 = butlast lines
      in case for_lines env lines1 u of (fl, u') \<Rightarrow> (fl, u', buffer2))"

text \<open>
  The reader: the chunks it still has to deliver and how it ends, by reporting
  \<^verbatim>\<open>done\<close> or by a \<^verbatim>\<open>read\<close> that throws (the connection failing, or the request
  being aborted).
\<close>

datatype ending = Done | ReadThrows exn

fun read_loop :: "builtins \<Rightarrow> string list \<Rightarrow> ending \<Rightarrow> string \<Rightarrow> ui \<Rightarrow> flow \<times> ui" where
  "read_loop env [] Done buffer u = (Falls, u)"
| "read_loop env [] (ReadThrows x) buffer u = (Throws x, u)"
| "read_loop env (value # chunks) e buffer u =
     (case on_chunk env value buffer u of
        (Falls, u', buffer') \<Rightarrow> read_loop env chunks e buffer' u'
      | (fl, u', buffer') \<Rightarrow> (fl, u'))"

text \<open>What \<^verbatim>\<open>fetch\<close> comes back with.\<close>

datatype connection =
    FetchThrows exn
  | NotOk nat string
  | NoBody
  | Body "string list" ending

text \<open>The outer \<^verbatim>\<open>catch (err)\<close>.\<close>

definition outer_catch :: "exn \<Rightarrow> ui \<Rightarrow> ui" where
  "outer_catch x u =
     (case x of
        Error name msg \<Rightarrow>
          if name = ''AbortError'' then u @ [ConsoleLog ''Stream was cancelled'']
          else u @ [ConsoleError ''Streaming error:'',
                    SetError (Some (''Connection error: '' @ msg)),
                    SetIsStreaming False, SetIsComplete True]
      | NonError \<Rightarrow>
          u @ [ConsoleError ''Streaming error:'',
               SetError (Some ''Connection error occurred''),
               SetIsStreaming False, SetIsComplete True])"

text \<open>
  \<^verbatim>\<open>startStreaming\<close>, from the reset of the state on. The abort controller is left
  out: cancelling shows here only as a \<^verbatim>\<open>read\<close> or a \<^verbatim>\<open>fetch\<close> that throws an
  \<^verbatim>\<open>AbortError\<close>.
\<close>

definition startStreaming :: "builtins \<Rightarrow> connection \<Rightarrow> ui \<Rightarrow> ui" where
  "startStreaming env conn u0 =
     (let u = u0 @ [SetRoutesEmpty, SetError None, SetIsComplete False,
                    SetLiquidityAvailable JNull, SetIsStreaming True]
      in case conn of
           FetchThrows x \<Rightarrow> outer_catch x u
         | NotOk code body \<Rightarrow>
             u @ [SetError (Some (''API error: '' @ digits code @ '' - '' @ body)),
                  SetIsStreaming False, SetIsComplete True]
         | NoBody \<Rightarrow>
             u @ [SetError (Some ''No response body available''),
                  SetIsStreaming False, SetIsComplete True]
         | Body chunks e \<Rightarrow>
             (case read_loop env chunks e [] u of
                (Throws x, u') \<Rightarrow> outer_catch x u'
              | (fl, u') \<Rightarrow> u'))"

text \<open>
  How the loop ends once the lines handled so far have ended with \<open>r\<close>: a \<^verbatim>\<open>return\<close>
  stands, and otherwise the reader's ending decides.
\<close>

definition finish :: "ending \<Rightarrow> flow \<times> ui \<Rightarrow> flow \<times> ui" where
  "finish e r =
     (case r of
        (Falls, u) \<Rightarrow> (case e of Done \<Rightarrow> (Falls, u) | ReadThrows x \<Rightarrow> (Throws x, u))
      | (fl, u) \<Rightarrow> (fl, u))"

text \<open>
  A parsed value of the shape of \<^verbatim>\<open>interface StreamEvent\<close>:
  \<^verbatim>\<open>{data: {zid, event: {type, data}}}\<close>.
\<close>

definition StreamEvent :: "js \<Rightarrow> string \<Rightarrow> js \<Rightarrow> js" where
  "StreamEvent z ty payload =
     JObject [(''data'', JObject [(''zid'', z),
                                  (''event'', JObject [(''type'', JString ty),
                                                       (''data'', payload)])])]"

text \<open>How many times the calls \<open>u\<close> declare the stream complete.\<close>

definition completions :: "ui \<Rightarrow> nat" where
  "completions u = length (filter (\<lambda>c. c = SetIsComplete True) u)"

section \<open>Concrete inputs\<close>

subsection \<open>Concrete environments for the monitor\<close>

text \<open>Inputs at which the theorems below are evaluated.\<close>

definition example_request :: CrossChainStatusRequest where
  "example_request = \<lparr>originChain = ChainNumber 8453, originTxHash = ''0xabc''\<rparr>"

definition response_with :: "status_enum \<Rightarrow> CrossChainStatusResponse" where
  "response_with st =
     \<lparr>status = st, subStatus = None, bridge = None, transactions = [], zid = ''z1''\<rparr>"

text \<open>An endpoint that answers every call with the same status.\<close>

definition fetcher_always :: "status_enum \<Rightarrow> fetcher" where
  "fetcher_always st = (\<lambda>n request. Inr (response_with st))"

text \<open>An endpoint that plays a script, and is unreachable once the script is over.\<close>

definition fetcher_scripted :: "(thrown + CrossChainStatusResponse) list \<Rightarrow> fetcher" where
  "fetcher_scripted rs =
     (\<lambda>n request. if n < length rs then rs ! n else Inl (NetworkError ''offline''))"

text \<open>
  A callback that only reads the status, one whose \<open>k\<close>-th call (from 0) throws, and one
  that writes \<open>st\<close> into the \<^verbatim>\<open>status\<close> field of the object it is handed.
\<close>

definition callback_quiet :: callback where
  "callback_quiet = (\<lambda>n s. Inr s)"

definition callback_throwing_at :: "nat \<Rightarrow> callback" where
  "callback_throwing_at k = (\<lambda>n s. if n = k then Inl (CallbackError ''boom'') else Inr s)"

definition callback_writing :: "status_enum \<Rightarrow> callback" where
  "callback_writing st = (\<lambda>n s. Inr (s\<lparr>status := st\<rparr>))"

definition options_with :: "int \<Rightarrow> int \<Rightarrow> callback option \<Rightarrow> options" where
  "options_with n ms cb = \<lparr>maxAttempts = Some n, intervalMs = Some ms, onUpdate = cb\<rparr>"

subsection \<open>Concrete streams\<close>

text \<open>
  Texts of data lines and the values \<^verbatim>\<open>JSON.parse\<close> gives for them. \<open>example_env\<close>
  parses exactly these texts and throws on any other; its number conversion is the
  decimal text of a natural number, the only numbers that occur.
\<close>

definition route_fields :: "(string \<times> js) list" where
  "route_fields = [(''sellAmount'', JString ''100''), (''buyAmount'', JString ''99'')]"

definition nested_route_text :: string where
  \<open>nested_route_text =
     ''{"data":{"zid":"z1","event":{"type":"route","data":{"route":{"sellAmount":"100","buyAmount":"99"},"allowanceTarget":"0xT"}}}}''\<close>

definition nested_route_value :: js where
  "nested_route_value =
     StreamEvent (JString ''z1'') ''route''
       (JObject [(''route'', JObject route_fields), (''allowanceTarget'', JString ''0xT'')])"

definition flat_route_text :: string where
  \<open>flat_route_text =
     ''{"data":{"zid":"z1","event":{"type":"route","data":{"sellAmount":"100","buyAmount":"99","allowanceTarget":"0xT"}}}}''\<close>

definition flat_route_value :: js where
  "flat_route_value =
     StreamEvent (JString ''z1'') ''route''
       (JObject (route_fields @ [(''allowanceTarget'', JString ''0xT'')]))"

definition result_text :: string where
  \<open>result_text =
     ''{"data":{"zid":"z1","event":{"type":"result","data":{"liquidityAvailable":true}}}}''\<close>

definition result_value :: js where
  "result_value =
     StreamEvent (JString ''z1'') ''result'' (JObject [(''liquidityAvailable'', JBool True)])"

definition fatal_text :: string where
  \<open>fatal_text = ''{"error":{"message":"no route","code":"E1","type":"fatal"}}''\<close>

definition fatal_value :: js where
  "fatal_value =
     JObject [(''error'', JObject [(''message'', JString ''no route''),
                                   (''code'', JString ''E1''), (''type'', JString ''fatal'')])]"

definition error_null_text :: string where
  \<open>error_null_text = ''{"error":null}''\<close>

definition error_null_value :: js where
  "error_null_value = JObject [(''error'', JNull)]"

definition null_result_text :: string where
  \<open>null_result_text = ''{"data":{"zid":"z1","event":{"type":"result","data":null}}}''\<close>

definition null_result_value :: js where
  "null_result_value = StreamEvent (JString ''z1'') ''result'' JNull"

definition own_toString_text :: string where
  \<open>own_toString_text = ''{"error":{"message":{"toString":1}}}''\<close>

definition own_toString_value :: js where
  "own_toString_value =
     JObject [(''error'', JObject [(''message'', JObject [(''toString'', JNumber 1)])])]"

definition example_env :: builtins where
  "example_env =
     \<lparr>JSON_parse = map_of
        [(nested_route_text, nested_route_value), (flat_route_text, flat_route_value),
         (result_text, result_value), (fatal_text, fatal_value),
         (error_null_text, error_null_value), (null_result_text, null_result_value),
         (own_toString_text, own_toString_value)],
      Number_toString = (\<lambda>r. digits (nat \<lfloor>r\<rfloor>))\<rparr>"

text \<open>A data line with its line feed.\<close>

definition data_line :: "string \<Rightarrow> string" where
  "data_line body = ''data: '' @ body @ [CHR 0x0A]"

text \<open>The route both example route texts normalize to, with its display index.\<close>

definition shown_route :: "nat \<Rightarrow> js" where
  "shown_route n =
     JObject [(''sellAmount'', JString ''100''), (''buyAmount'', JString ''99''),
              (''allowanceTarget'', JString ''0xT''), (''id'', JString ''z1''),
              (''displayIndex'', JNumber (of_nat n))]"

section \<open>Lemmas about the monitor\<close>

subsection \<open>Counting effects\<close>

lemma fetch_count_append [simp]: "fetch_count (w @ v) = fetch_count w + fetch_count v"
  by (simp add: fetch_count_def)
lemma update_count_append [simp]: "update_count (w @ v) = update_count w + update_count v"
  by (simp add: update_count_def)
lemma sleep_count_append [simp]: "sleep_count (w @ v) = sleep_count w + sleep_count v"
  by (simp add: sleep_count_def)
lemma updates_of_append [simp]: "updates_of (w @ v) = updates_of w @ updates_of v"
  by (induction w rule: updates_of.induct) simp_all
lemma sleeps_of_append [simp]: "sleeps_of (w @ v) = sleeps_of w @ sleeps_of v"
  by (induction w rule: sleeps_of.induct) simp_all

lemma counts_notify [simp]:
  "fetch_count (notify cb s) = 0" "sleep_count (notify cb s) = 0" "sleeps_of (notify cb s) = []"
  "update_count (notify cb s) = (if cb = None then 0 else 1)"
  "updates_of (notify cb s) = (if cb = None then [] else [s])"
  by (simp_all add: notify_def fetch_count_def sleep_count_def update_count_def split: option.splits)

lemma counts_Cons [simp]:
  "fetch_count (e # w) = (if is_GetStatus e then 1 else 0) + fetch_count w"
  "update_count (e # w) = (if is_OnUpdate e then 1 else 0) + update_count w"
  "sleep_count (e # w) = (if is_SetTimeout e then 1 else 0) + sleep_count w"
  by (simp_all add: fetch_count_def sleep_count_def update_count_def)

lemma counts_single [simp]:
  "fetch_count [GetStatus r] = 1" "fetch_count [OnUpdate s] = 0" "fetch_count [SetTimeout d] = 0" "fetch_count [ConsoleWarn n e] = 0"
  "update_count [GetStatus r] = 0" "update_count [OnUpdate s] = 1" "update_count [SetTimeout d] = 0" "update_count [ConsoleWarn n e] = 0"
  "sleep_count [GetStatus r] = 0" "sleep_count [OnUpdate s] = 0" "sleep_count [SetTimeout d] = 1" "sleep_count [ConsoleWarn n e] = 0"
  "fetch_count [] = 0" "update_count [] = 0" "sleep_count [] = 0"
  by (simp_all add: fetch_count_def sleep_count_def update_count_def)

lemma counts_warn_case [simp]:
  "fetch_count (case r of Inl e \<Rightarrow> [ConsoleWarn n e] | Inr s \<Rightarrow> []) = 0"
  "update_count (case r of Inl e \<Rightarrow> [ConsoleWarn n e] | Inr s \<Rightarrow> []) = 0"
  "updates_of (case r of Inl e \<Rightarrow> [ConsoleWarn n e] | Inr s \<Rightarrow> []) = []"
  "sleeps_of (case r of Inl e \<Rightarrow> [ConsoleWarn n e] | Inr s \<Rightarrow> []) = []"
  by (cases r; simp)+

lemma sleep_count_eq: "sleep_count w = length (sleeps_of w)"
  by (induction w rule: sleeps_of.induct) (simp_all add: sleep_count_def)

lemma update_count_eq: "update_count w = length (updates_of w)"
  by (induction w rule: updates_of.induct) (simp_all add: update_count_def)

subsection \<open>Successful fetches\<close>

lemma successes_empty [simp]: "successes f req lo lo = []"
  by (simp add: successes_def List.map_filter_def)

lemma successes_Suc:
  "lo \<le> hi \<Longrightarrow> successes f req lo (Suc hi) =
     successes f req lo hi @ (case f hi req of Inl e \<Rightarrow> [] | Inr s \<Rightarrow> [s])"
  by (cases "f hi req") (simp_all add: successes_def List.map_filter_def)

lemma successes_append:
  "lo \<le> mid \<Longrightarrow> mid \<le> hi \<Longrightarrow>
   successes f req lo hi = successes f req lo mid @ successes f req mid hi"
proof -
  assume "lo \<le> mid" "mid \<le> hi"
  then have "[lo..<hi] = [lo..<mid] @ [mid..<hi]"
    by (metis le_Suc_ex upt_add_eq_append)
  then show ?thesis
    by (simp add: successes_def List.map_filter_def)
qed

lemma successes_all:
  "\<forall>i<n. f i req = Inr (ss i) \<Longrightarrow> successes f req 0 n = map ss [0..<n]"
  by (induction n) (simp_all add: successes_Suc)

subsection \<open>One pass through the body\<close>

lemma call_onUpdate_eq:
  "call_onUpdate cb s w = (after_callback cb (update_count w) s, w @ notify cb s)"
  by (cases cb) (simp_all add: call_onUpdate_def after_callback_def notify_def)

lemma loop_body_fetch_fails:
  assumes "f (fetch_count w) req = Inl e"
  shows "loop_body f cb req maxA ms a w =
     (if int a = maxA - 1 then (Throw e, w @ [GetStatus req, ConsoleWarn (a + 1) e])
      else (NextIteration, w @ [GetStatus req, ConsoleWarn (a + 1) e, SetTimeout ms]))"
  using assms by (simp add: loop_body_def getStatus_def catch_block_def sleep_def Let_def)

lemma loop_body_fetch_succeeds:
  assumes "f (fetch_count w) req = Inr s"
  shows "loop_body f cb req maxA ms a w =
     (case after_callback cb (update_count w) s of
        Inl e \<Rightarrow>
          if int a = maxA - 1
          then (Throw e, w @ GetStatus req # notify cb s @ [ConsoleWarn (a + 1) e])
          else (NextIteration,
                w @ GetStatus req # notify cb s @ [ConsoleWarn (a + 1) e, SetTimeout ms])
      | Inr s' \<Rightarrow>
          if status s' \<in> set finalStates then (Return s', w @ GetStatus req # notify cb s)
          else (NextIteration,
                w @ GetStatus req # notify cb s
                  @ (if int a < maxA - 1 then [SetTimeout ms] else [])))"
proof -
  have u: "update_count (w @ [GetStatus req]) = update_count w" by simp
  show ?thesis
    using assms
    by (cases "after_callback cb (update_count w) s")
       (simp_all add: loop_body_def getStatus_def call_onUpdate_eq u catch_block_def sleep_def
          Let_def)
qed

lemma loop_body_Return:
  assumes "loop_body f cb req maxA ms a w = (Return r, w')"
  shows "status r \<in> set finalStates"
proof (cases "f (fetch_count w) req")
  case (Inl e)
  with assms show ?thesis
    by (simp add: loop_body_fetch_fails [of f w req] split: if_splits)
next
  case (Inr s)
  with assms show ?thesis
    by (cases "after_callback cb (update_count w) s")
       (auto simp: loop_body_fetch_succeeds [of f w req s] split: if_splits)
qed

lemma loop_body_effects:
  assumes "loop_body f cb req maxA ms a w = (c, w')"
  shows "fetch_count w' = Suc (fetch_count w)
       \<and> updates_of w' = updates_of w @
            (if cb = None then [] else successes f req (fetch_count w) (Suc (fetch_count w)))"
proof (cases "f (fetch_count w) req")
  case (Inl e)
  with assms show ?thesis
    by (auto simp: loop_body_fetch_fails [of f w req] successes_Suc split: if_splits)
next
  case (Inr s)
  with assms show ?thesis
    by (cases "after_callback cb (update_count w) s")
       (auto simp: loop_body_fetch_succeeds [of f w req s] successes_Suc split: if_splits)
qed

subsection \<open>Attempts that go on\<close>

lemma attempts_trace_empty [simp]: "attempts_trace f cb req maxA ms lo lo = []"
  by (simp add: attempts_trace_def)

lemma attempts_trace_Suc:
  "lo \<le> hi \<Longrightarrow> attempts_trace f cb req maxA ms lo (Suc hi) =
     attempts_trace f cb req maxA ms lo hi @ attempt_trace f cb req maxA ms hi"
  by (simp add: attempts_trace_def)

lemma fetch_count_attempt_trace [simp]: "fetch_count (attempt_trace f cb req maxA ms i) = 1"
  by (cases "f i req") (simp_all add: attempt_trace_def)

lemma updates_of_attempt_trace:
  "updates_of (attempt_trace f cb req maxA ms i) =
     (if cb = None then [] else successes f req i (Suc i))"
  by (cases "f i req") (simp_all add: attempt_trace_def successes_Suc)

lemma sleeps_of_attempt_trace:
  "sleeps_of (attempt_trace f cb req maxA ms i) = (if int i < maxA - 1 then [ms] else [])"
  by (cases "f i req") (simp_all add: attempt_trace_def)

lemma fetch_count_attempts_trace [simp]:
  "fetch_count (attempts_trace f cb req maxA ms lo hi) = hi - lo"
proof (cases "lo \<le> hi")
  case True
  then show ?thesis
    by (induction hi) (auto simp: attempts_trace_Suc le_Suc_eq)
next
  case False
  then show ?thesis by (simp add: attempts_trace_def)
qed

lemma updates_of_attempts_trace:
  "updates_of (attempts_trace f cb req maxA ms lo hi) =
     (if cb = None then [] else successes f req lo hi)"
proof (cases "lo \<le> hi")
  case True
  then show ?thesis
  proof (induction hi)
    case 0
    then show ?case by simp
  next
    case (Suc hi)
    show ?case
    proof (cases "lo = Suc hi")
      case True
      then show ?thesis by simp
    next
      case False
      with Suc.prems have le: "lo \<le> hi" by simp
      with Suc.IH show ?thesis
        by (simp add: attempts_trace_Suc updates_of_attempt_trace
            successes_append [of lo hi "Suc hi"])
    qed
  qed
next
  case False
  then show ?thesis by (simp add: attempts_trace_def successes_def List.map_filter_def)
qed

lemma sleeps_of_attempts_trace:
  "int hi \<le> maxA \<Longrightarrow>
   sleeps_of (attempts_trace f cb req maxA ms lo hi) =
     replicate ((if int hi = maxA then hi - 1 else hi) - lo) ms"
proof (cases "lo \<le> hi")
  case True
  assume "int hi \<le> maxA"
  with True show ?thesis
  proof (induction hi)
    case 0
    then show ?case by simp
  next
    case (Suc hi)
    show ?case
    proof (cases "lo = Suc hi")
      case True
      then show ?thesis by simp
    next
      case False
      with Suc.prems have le: "lo \<le> hi" and b: "int hi < maxA" by simp_all
      from Suc.IH le b
      have "sleeps_of (attempts_trace f cb req maxA ms lo hi) = replicate (hi - lo) ms"
        by simp
      with le Suc.prems show ?thesis
        by (auto simp: attempts_trace_Suc sleeps_of_attempt_trace replicate_append_same
            Suc_diff_le)
    qed
  qed
next
  case False
  then show ?thesis by (auto simp: attempts_trace_def)
qed

text \<open>
  A world is in step with attempt \<open>a\<close> of a run from the start when it has seen \<open>a\<close>
  fetches and, with a callback, one notification for each that succeeded.
\<close>

lemma loop_body_goes_on:
  assumes fc: "fetch_count w = a"
    and uc: "cb \<noteq> None \<longrightarrow> update_count w = length (successes f req 0 a)"
    and lt: "int a < maxA" and go: "goes_on f cb req maxA a"
  shows "loop_body f cb req maxA ms a w = (NextIteration, w @ attempt_trace f cb req maxA ms a)"
proof (cases "f a req")
  case (Inl e)
  then have "f (fetch_count w) req = Inl e" by (simp only: fc)
  from loop_body_fetch_fails [of f w req, OF this] go lt Inl show ?thesis
    by (simp add: goes_on_def after_attempt_def attempt_trace_def)
next
  case (Inr s)
  then have fs: "f (fetch_count w) req = Inr s" by (simp only: fc)
  have ac: "after_callback cb (update_count w) s =
      after_callback cb (length (successes f req 0 a)) s"
    using uc by (cases cb) (simp_all add: after_callback_def)
  show ?thesis
  proof (cases "after_callback cb (length (successes f req 0 a)) s")
    case (Inl e)
    with loop_body_fetch_succeeds [of f w req s, OF fs] ac go lt Inr show ?thesis
      by (simp add: goes_on_def after_attempt_def attempt_trace_def)
  next
    case r: (Inr s')
    with loop_body_fetch_succeeds [of f w req s, OF fs] ac go lt Inr show ?thesis
      by (simp add: goes_on_def after_attempt_def attempt_trace_def)
  qed
qed

lemma monitor_loop_goes_on:
  assumes "fetch_count w = a"
    and "cb \<noteq> None \<longrightarrow> update_count w = length (successes f req 0 a)"
    and "a \<le> k" and "int k \<le> maxA"
    and "\<forall>i. a \<le> i \<and> i < k \<longrightarrow> goes_on f cb req maxA i"
  shows "monitor_loop f cb req maxA ms a w =
         monitor_loop f cb req maxA ms k (w @ attempts_trace f cb req maxA ms a k)"
  using assms(3-5)
proof (induction k)
  case 0
  then show ?case by simp
next
  case (Suc k)
  show ?case
  proof (cases "a = Suc k")
    case True
    then show ?thesis by simp
  next
    case False
    with Suc.prems have le: "a \<le> k" and b: "int k < maxA" by simp_all
    let ?w = "w @ attempts_trace f cb req maxA ms a k"
    have go: "goes_on f cb req maxA k" using Suc.prems le by simp
    have fc: "fetch_count ?w = k" using assms(1) le by simp
    have uc: "cb \<noteq> None \<longrightarrow> update_count ?w = length (successes f req 0 k)"
      using assms(2) le
      by (auto simp: update_count_eq updates_of_attempts_trace successes_append [of 0 a k])
    have "loop_body f cb req maxA ms k ?w = (NextIteration, ?w @ attempt_trace f cb req maxA ms k)"
      using fc uc b go by (rule loop_body_goes_on)
    then have "monitor_loop f cb req maxA ms k ?w =
        monitor_loop f cb req maxA ms (Suc k)
          (w @ attempts_trace f cb req maxA ms a (Suc k))"
      using b le by (subst monitor_loop.simps) (simp add: attempts_trace_Suc)
    moreover have "monitor_loop f cb req maxA ms a w = monitor_loop f cb req maxA ms k ?w"
      using Suc.IH le b Suc.prems by simp
    ultimately show ?thesis by simp
  qed
qed

lemma monitor_loop_exhausted:
  "maxA \<le> int a \<Longrightarrow> monitor_loop f cb req maxA ms a w = (Inl (MonitoringTimedOut maxA), w)"
  by (subst monitor_loop.simps) simp

subsection \<open>What the callback is told, and what is returned\<close>

lemma monitor_loop_updates:
  "monitor_loop f cb req maxA ms a w = (r, w') \<Longrightarrow>
   fetch_count w \<le> fetch_count w'
   \<and> updates_of w' = updates_of w @
        (if cb = None then [] else successes f req (fetch_count w) (fetch_count w'))"
proof (induction f cb req maxA ms a w rule: monitor_loop.induct)
  case (1 f cb req maxA ms a w)
  show ?case
  proof (cases "int a < maxA")
    case False
    with "1.prems" show ?thesis
      by (simp add: monitor_loop_exhausted successes_def)
  next
    case True
    obtain c w1 where body: "loop_body f cb req maxA ms a w = (c, w1)"
      by (cases "loop_body f cb req maxA ms a w")
    note eff = loop_body_effects [OF body]
    show ?thesis
    proof (cases c)
      case (Return s)
      with "1.prems" True body have "w' = w1"
        by (subst (asm) monitor_loop.simps) simp
      with eff show ?thesis by simp
    next
      case (Throw e)
      with "1.prems" True body have "w' = w1"
        by (subst (asm) monitor_loop.simps) simp
      with eff show ?thesis by simp
    next
      case NextIteration
      with "1.prems" True body
      have rec: "monitor_loop f cb req maxA ms (Suc a) w1 = (r, w')"
        by (subst (asm) monitor_loop.simps) simp
      from "1.IH" [OF True body [symmetric] _ rec] NextIteration
      have ih: "fetch_count w1 \<le> fetch_count w'"
        "updates_of w' = updates_of w1 @
           (if cb = None then [] else successes f req (fetch_count w1) (fetch_count w'))"
        by simp_all
      from eff ih show ?thesis
        by (auto simp: successes_append [of "fetch_count w" "Suc (fetch_count w)" "fetch_count w'"])
    qed
  qed
qed

lemma monitor_loop_Return:
  "monitor_loop f cb req maxA ms a w = (Inr r, w') \<Longrightarrow> status r \<in> set finalStates"
proof (induction f cb req maxA ms a w rule: monitor_loop.induct)
  case (1 f cb req maxA ms a w)
  show ?case
  proof (cases "int a < maxA")
    case False
    with "1.prems" show ?thesis by (simp add: monitor_loop_exhausted)
  next
    case True
    obtain c w1 where body: "loop_body f cb req maxA ms a w = (c, w1)"
      by (cases "loop_body f cb req maxA ms a w")
    show ?thesis
    proof (cases c)
      case (Return s)
      with "1.prems" True body have "s = r"
        by (subst (asm) monitor_loop.simps) simp
      with body Return show ?thesis by (auto dest: loop_body_Return)
    next
      case (Throw e)
      with "1.prems" True body show ?thesis
        by (subst (asm) monitor_loop.simps) simp
    next
      case NextIteration
      with "1.prems" True body
      have rec: "monitor_loop f cb req maxA ms (Suc a) w1 = (Inr r, w')"
        by (subst (asm) monitor_loop.simps) simp
      from "1.IH" [OF True body [symmetric] _ rec] NextIteration show ?thesis by simp
    qed
  qed
qed

lemma fixture_options [simp]:
  "maxAttempts_of (options_with n ms cb) = n"
  "intervalMs_of (options_with n ms cb) = ms"
  "onUpdate (options_with n ms cb) = cb"
  by (simp_all add: options_with_def maxAttempts_of_def intervalMs_of_def)

section \<open>Properties of the monitor\<close>

text \<open>
  Claim C1, as amended. Let the attempt budget \<open>N = maxAttempts\<close> be at least 1 and let
  every one of the \<open>N\<close> calls of the status endpoint return a status that is not in
  \<open>finalStates\<close>. Let \<^verbatim>\<open>onUpdate\<close>, when one is given, never leave the object it is handed
  with a status that is in \<open>finalStates\<close>, and not throw on the last attempt (on any
  other attempt it may throw). Then \<^verbatim>\<open>monitorTransaction\<close> calls the endpoint exactly
  \<open>N\<close> times, waits exactly \<open>N - 1\<close> times, each time for \<open>intervalMs\<close> and each time
  between two attempts (every attempt but the last ends with a wait), and throws the
  error saying that monitoring timed out after \<open>N\<close> attempts.
\<close>

theorem monitor_times_out_when_always_pending:
  assumes "1 \<le> maxAttempts_of opts"
    and "\<forall>i<nat (maxAttempts_of opts).
           f i req = Inr (ss i) \<and> status (ss i) \<notin> set finalStates
           \<and> (case after_callback (onUpdate opts) i (ss i) of
                 Inl e \<Rightarrow> int i \<noteq> maxAttempts_of opts - 1
               | Inr s' \<Rightarrow> status s' \<notin> set finalStates)"
  shows "monitorTransaction f req opts =
           (Inl (MonitoringTimedOut (maxAttempts_of opts)),
            attempts_trace f (onUpdate opts) req (maxAttempts_of opts) (intervalMs_of opts)
              0 (nat (maxAttempts_of opts)))
       \<and> fetch_count (snd (monitorTransaction f req opts)) = nat (maxAttempts_of opts)
       \<and> sleep_count (snd (monitorTransaction f req opts)) = nat (maxAttempts_of opts) - 1
       \<and> sleeps_of (snd (monitorTransaction f req opts)) =
           replicate (nat (maxAttempts_of opts) - 1) (intervalMs_of opts)"
proof -
  let ?N = "maxAttempts_of opts" and ?cb = "onUpdate opts"
  let ?t = "attempts_trace f ?cb req ?N (intervalMs_of opts) 0 (nat ?N)"
  have go: "goes_on f ?cb req ?N i" if "i < nat ?N" for i
  proof -
    have "\<forall>j<i. f j req = Inr (ss j)" using assms(2) that by simp
    then have "successes f req 0 i = map ss [0..<i]" by (rule successes_all)
    then have "length (successes f req 0 i) = i" by simp
    with assms(2) that show ?thesis
      by (simp add: goes_on_def after_attempt_def)
  qed
  have "monitor_loop f ?cb req ?N (intervalMs_of opts) 0 [] =
        monitor_loop f ?cb req ?N (intervalMs_of opts) (nat ?N) ([] @ ?t)"
    using assms(1) go by (intro monitor_loop_goes_on) simp_all
  also have "\<dots> = (Inl (MonitoringTimedOut ?N), ?t)"
    using assms(1) by (simp add: monitor_loop_exhausted)
  finally have run: "monitorTransaction f req opts = (Inl (MonitoringTimedOut ?N), ?t)"
    by (simp add: monitorTransaction_def)
  have "sleeps_of ?t = replicate (nat ?N - 1) (intervalMs_of opts)"
    using assms(1) by (simp add: sleeps_of_attempts_trace)
  then show ?thesis
    using run by (simp add: sleep_count_eq)
qed

text \<open>
  C1 at a budget of three, 250 ms apart, with the endpoint always answering
  \<^verbatim>\<open>bridge_pending\<close> and a callback whose second call throws: the exception is
  swallowed and the run still ends with the timeout after three fetches and two waits.
\<close>

theorem monitor_times_out_when_always_pending_witness:
  "monitorTransaction (fetcher_always bridge_pending) example_request
       (options_with 3 250 (Some (callback_throwing_at 1)))
     = (Inl (MonitoringTimedOut 3),
        [GetStatus example_request, OnUpdate (response_with bridge_pending), SetTimeout 250,
         GetStatus example_request, OnUpdate (response_with bridge_pending),
         ConsoleWarn 2 (CallbackError ''boom''), SetTimeout 250,
         GetStatus example_request, OnUpdate (response_with bridge_pending)])
   \<and> fetch_count (snd (monitorTransaction (fetcher_always bridge_pending) example_request
                           (options_with 3 250 (Some (callback_throwing_at 1))))) = 3
   \<and> sleep_count (snd (monitorTransaction (fetcher_always bridge_pending) example_request
                           (options_with 3 250 (Some (callback_throwing_at 1))))) = 2"
proof -
  let ?opts = "options_with 3 250 (Some (callback_throwing_at 1))"
  let ?f = "fetcher_always bridge_pending"
  let ?ss = "\<lambda>i::nat. response_with bridge_pending"
  have h1: "1 \<le> maxAttempts_of ?opts" by simp
  have h2: "\<forall>i<nat (maxAttempts_of ?opts).
      ?f i example_request = Inr (?ss i)
      \<and> status (?ss i) \<notin> set finalStates
      \<and> (case after_callback (onUpdate ?opts) i (?ss i) of
            Inl e \<Rightarrow> int i \<noteq> maxAttempts_of ?opts - 1
          | Inr s' \<Rightarrow> status s' \<notin> set finalStates)"
    by (simp add: fetcher_always_def response_with_def finalStates_def callback_throwing_at_def
        after_callback_def)
  have tr: "attempts_trace ?f (Some (callback_throwing_at (Suc 0))) example_request 3 250 0 3 =
        [GetStatus example_request, OnUpdate (response_with bridge_pending), SetTimeout 250,
         GetStatus example_request, OnUpdate (response_with bridge_pending),
         ConsoleWarn 2 (CallbackError ''boom''), SetTimeout 250,
         GetStatus example_request, OnUpdate (response_with bridge_pending)]"
    by code_simp
  show ?thesis
    using monitor_times_out_when_always_pending [of ?opts ?f example_request ?ss, OF h1 h2]
    by (simp add: tr)
qed

text \<open>
  C1 as it is stated fails, in two ways. The call of \<^verbatim>\<open>onUpdate\<close> is inside the
  \<^verbatim>\<open>try\<close> block, so a callback that throws on the last attempt has its error rethrown
  by the \<^verbatim>\<open>catch\<close> block: with a budget of 2, both fetches returning
  \<^verbatim>\<open>bridge_pending\<close> and the second call of the callback throwing, the monitor fails
  with the callback's error, not with the timeout. And the callback is handed the object
  that is tested next: one that writes \<^verbatim>\<open>bridge_filled\<close> into it makes the monitor
  return after a single fetch.
\<close>

theorem monitor_timeout_claim_counterexample:
  "monitorTransaction (fetcher_always bridge_pending) example_request
       (options_with 2 0 (Some (callback_throwing_at 1)))
     = (Inl (CallbackError ''boom''),
        [GetStatus example_request, OnUpdate (response_with bridge_pending), SetTimeout 0,
         GetStatus example_request, OnUpdate (response_with bridge_pending),
         ConsoleWarn 2 (CallbackError ''boom'')])
   \<and> monitorTransaction (fetcher_always bridge_pending) example_request
       (options_with 2 0 (Some (callback_writing bridge_filled)))
     = (Inr (response_with bridge_filled),
        [GetStatus example_request, OnUpdate (response_with bridge_pending)])
   \<and> status (response_with bridge_pending) \<notin> set finalStates
   \<and> fst (monitorTransaction (fetcher_always bridge_pending) example_request
             (options_with 2 0 (Some (callback_throwing_at 1))))
       \<noteq> Inl (MonitoringTimedOut 2)
   \<and> fst (monitorTransaction (fetcher_always bridge_pending) example_request
             (options_with 2 0 (Some (callback_writing bridge_filled))))
       \<noteq> Inl (MonitoringTimedOut 2)"
  by (simp add: monitorTransaction_def monitor_loop.simps options_with_def maxAttempts_of_def
      intervalMs_of_def loop_body_def getStatus_def call_onUpdate_def catch_block_def sleep_def
      fetcher_always_def callback_throwing_at_def callback_writing_def response_with_def
      finalStates_def)

text \<open>
  Claim C2, as amended. Let attempt \<open>k\<close> (\<open>1 \<le> k \<le> maxAttempts\<close>) fetch a status \<open>t\<close>
  whose \<^verbatim>\<open>status\<close> field is in \<open>finalStates\<close>, and let \<^verbatim>\<open>onUpdate\<close>, when one is given,
  return on it and leave the object, as \<open>t'\<close>, with a status in \<open>finalStates\<close> (\<open>t' = t\<close>
  when it only reads it). Let each of the attempts \<open>1, \<dots>, k - 1\<close> either fail to fetch,
  or fetch a status that is not in \<open>finalStates\<close> and that \<^verbatim>\<open>onUpdate\<close>, if it returns
  on it, does not leave with a status in \<open>finalStates\<close>. Then \<^verbatim>\<open>monitorTransaction\<close>
  returns that \<open>k\<close>-th status object \<open>t'\<close>, after exactly \<open>k\<close> calls of the endpoint and
  exactly \<open>k - 1\<close> waits of \<open>intervalMs\<close>; the trace ends with the fetch of \<open>t\<close> and its
  notification, so no wait follows the final attempt. And in every run whatever, a
  status that is returned is one of \<open>finalStates\<close>, all of which are members of the
  schema's enumeration.
\<close>

theorem monitor_returns_first_final_status:
  "(1 \<le> k \<and> int k \<le> maxAttempts_of opts
      \<and> (\<forall>i<k - 1.
            case f i req of
              Inl e \<Rightarrow> True
            | Inr s \<Rightarrow>
                status s \<notin> set finalStates
                \<and> (case after_callback (onUpdate opts) (length (successes f req 0 i)) s of
                      Inl e \<Rightarrow> True
                    | Inr s' \<Rightarrow> status s' \<notin> set finalStates))
      \<and> f (k - 1) req = Inr t \<and> status t \<in> set finalStates
      \<and> after_callback (onUpdate opts) (length (successes f req 0 (k - 1))) t = Inr t'
      \<and> status t' \<in> set finalStates \<longrightarrow>
      monitorTransaction f req opts =
        (Inr t',
         attempts_trace f (onUpdate opts) req (maxAttempts_of opts) (intervalMs_of opts)
           0 (k - 1) @ GetStatus req # notify (onUpdate opts) t)
      \<and> fetch_count (snd (monitorTransaction f req opts)) = k
      \<and> sleep_count (snd (monitorTransaction f req opts)) = k - 1
      \<and> sleeps_of (snd (monitorTransaction f req opts)) =
          replicate (k - 1) (intervalMs_of opts))
   \<and> (\<forall>r. fst (monitorTransaction f req opts) = Inr r \<longrightarrow> status r \<in> set finalStates)
   \<and> set finalStates \<subseteq> set status_values"
proof (intro conjI impI allI)
  fix r
  assume "fst (monitorTransaction f req opts) = Inr r"
  then obtain w' where "monitorTransaction f req opts = (Inr r, w')"
    by (cases "monitorTransaction f req opts") simp
  then show "status r \<in> set finalStates"
    unfolding monitorTransaction_def by (rule monitor_loop_Return)
next
  show "set finalStates \<subseteq> set status_values"
    by (simp add: finalStates_def status_values_def)
next
  let ?N = "maxAttempts_of opts" and ?cb = "onUpdate opts" and ?ms = "intervalMs_of opts"
  let ?t = "attempts_trace f ?cb req ?N ?ms 0 (k - 1)"
  assume a: "1 \<le> k \<and> int k \<le> ?N
      \<and> (\<forall>i<k - 1.
            case f i req of
              Inl e \<Rightarrow> True
            | Inr s \<Rightarrow>
                status s \<notin> set finalStates
                \<and> (case after_callback ?cb (length (successes f req 0 i)) s of
                      Inl e \<Rightarrow> True
                    | Inr s' \<Rightarrow> status s' \<notin> set finalStates))
      \<and> f (k - 1) req = Inr t \<and> status t \<in> set finalStates
      \<and> after_callback ?cb (length (successes f req 0 (k - 1))) t = Inr t'
      \<and> status t' \<in> set finalStates"
  then have k: "1 \<le> k" "int k \<le> ?N" and ft: "f (k - 1) req = Inr t"
    and ac: "after_callback ?cb (length (successes f req 0 (k - 1))) t = Inr t'"
    and fin: "status t' \<in> set finalStates"
    by simp_all
  have go: "goes_on f ?cb req ?N i" if "i < k - 1" for i
  proof -
    have nl: "int i \<noteq> ?N - 1" using that k by linarith
    from a that have
      "case f i req of
         Inl e \<Rightarrow> True
       | Inr s \<Rightarrow>
           status s \<notin> set finalStates
           \<and> (case after_callback ?cb (length (successes f req 0 i)) s of
                 Inl e \<Rightarrow> True
               | Inr s' \<Rightarrow> status s' \<notin> set finalStates)"
      by blast
    with nl show ?thesis
      by (auto simp: goes_on_def after_attempt_def split: sum.splits)
  qed
  have fc: "fetch_count ?t = k - 1" by simp
  have uc: "?cb \<noteq> None \<longrightarrow> update_count ?t = length (successes f req 0 (k - 1))"
    by (simp add: update_count_eq updates_of_attempts_trace)
  have fk: "f (fetch_count ?t) req = Inr t" by (simp only: fc ft)
  have ac': "after_callback ?cb (update_count ?t) t = Inr t'"
    using uc ac by (cases ?cb) (simp_all add: after_callback_def)
  have body: "loop_body f ?cb req ?N ?ms (k - 1) ?t = (Return t', ?t @ GetStatus req # notify ?cb t)"
    using loop_body_fetch_succeeds [of f ?t req t ?cb ?N ?ms "k - 1", OF fk]
    by (simp only: ac' sum.case fin if_True)
  have "monitor_loop f ?cb req ?N ?ms 0 [] = monitor_loop f ?cb req ?N ?ms (k - 1) ([] @ ?t)"
    using k go by (intro monitor_loop_goes_on) simp_all
  also have "\<dots> = (Inr t', ?t @ GetStatus req # notify ?cb t)"
    using k body by (subst monitor_loop.simps) simp
  finally have run: "monitorTransaction f req opts = (Inr t', ?t @ GetStatus req # notify ?cb t)"
    by (simp add: monitorTransaction_def)
  have sl: "sleeps_of ?t = replicate (k - 1) ?ms"
    using k by (simp add: sleeps_of_attempts_trace)
  from run sl k
  show "monitorTransaction f req opts = (Inr t', ?t @ GetStatus req # notify ?cb t)"
    and "fetch_count (snd (monitorTransaction f req opts)) = k"
    and "sleep_count (snd (monitorTransaction f req opts)) = k - 1"
    and "sleeps_of (snd (monitorTransaction f req opts)) = replicate (k - 1) ?ms"
    by (simp_all add: sleep_count_eq)
qed

text \<open>
  C2 on an endpoint that answers \<^verbatim>\<open>bridge_pending\<close>, then is unreachable once, then
  answers \<^verbatim>\<open>destination_tx_succeeded\<close>, with \<^verbatim>\<open>maxAttempts = 3\<close>, \<^verbatim>\<open>intervalMs = 0\<close>
  and a callback that only reads: the third status is returned after three fetches and
  two waits.
\<close>

theorem monitor_returns_first_final_status_witness:
  "monitorTransaction
       (fetcher_scripted [Inr (response_with bridge_pending), Inl (NetworkError ''reset''),
                          Inr (response_with destination_tx_succeeded)])
       example_request (options_with 3 0 (Some callback_quiet))
     = (Inr (response_with destination_tx_succeeded),
        [GetStatus example_request, OnUpdate (response_with bridge_pending), SetTimeout 0,
         GetStatus example_request, ConsoleWarn 2 (NetworkError ''reset''), SetTimeout 0,
         GetStatus example_request, OnUpdate (response_with destination_tx_succeeded)])
   \<and> fetch_count (snd (monitorTransaction
        (fetcher_scripted [Inr (response_with bridge_pending), Inl (NetworkError ''reset''),
                           Inr (response_with destination_tx_succeeded)])
        example_request (options_with 3 0 (Some callback_quiet)))) = 3
   \<and> sleep_count (snd (monitorTransaction
        (fetcher_scripted [Inr (response_with bridge_pending), Inl (NetworkError ''reset''),
                           Inr (response_with destination_tx_succeeded)])
        example_request (options_with 3 0 (Some callback_quiet)))) = 2
   \<and> status (response_with destination_tx_succeeded) \<in> set finalStates"
proof -
  let ?opts = "options_with 3 0 (Some callback_quiet)"
  let ?f = "fetcher_scripted [Inr (response_with bridge_pending), Inl (NetworkError ''reset''),
              Inr (response_with destination_tx_succeeded)]"
  let ?t = "response_with destination_tx_succeeded"
  have h: "1 \<le> (3::nat) \<and> int 3 \<le> maxAttempts_of ?opts
      \<and> (\<forall>i<3 - 1.
            case ?f i example_request of
              Inl e \<Rightarrow> True
            | Inr s \<Rightarrow>
                status s \<notin> set finalStates
                \<and> (case after_callback (onUpdate ?opts)
                           (length (successes ?f example_request 0 i)) s of
                      Inl e \<Rightarrow> True
                    | Inr s' \<Rightarrow> status s' \<notin> set finalStates))
      \<and> ?f (3 - 1) example_request = Inr ?t \<and> status ?t \<in> set finalStates
      \<and> after_callback (onUpdate ?opts) (length (successes ?f example_request 0 (3 - 1))) ?t
          = Inr ?t
      \<and> status ?t \<in> set finalStates"
    by (simp add: fetcher_scripted_def response_with_def finalStates_def callback_quiet_def
        after_callback_def less_Suc_eq numeral_2_eq_2)
  have tr: "attempts_trace ?f (Some callback_quiet) example_request 3 0 0 2 =
        [GetStatus example_request, OnUpdate (response_with bridge_pending), SetTimeout 0,
         GetStatus example_request, ConsoleWarn 2 (NetworkError ''reset''), SetTimeout 0]"
    by code_simp
  have r: "monitorTransaction ?f example_request ?opts =
      (Inr ?t, attempts_trace ?f (onUpdate ?opts) example_request (maxAttempts_of ?opts)
                 (intervalMs_of ?opts) 0 (3 - 1)
               @ GetStatus example_request # notify (onUpdate ?opts) ?t)"
    using monitor_returns_first_final_status [of 3 ?opts ?f example_request ?t ?t] h by blast
  have fin: "status ?t \<in> set finalStates"
    using monitor_returns_first_final_status [of 3 ?opts ?f example_request ?t ?t] r by simp
  show ?thesis
    using r fin by (simp add: tr notify_def)
qed

text \<open>
  C2 as it is stated fails, for the same two reasons as C1. A callback that throws on
  the final status sends control to the \<^verbatim>\<open>catch\<close> block instead of the
  \<^verbatim>\<open>return\<close>: with a budget of 2, the first attempt fetching
  \<^verbatim>\<open>destination_tx_succeeded\<close> and the first call of the callback throwing, the
  monitor warns, waits, fetches a second time and only then returns, after two fetches
  and one wait instead of one and none. A callback that writes \<^verbatim>\<open>bridge_pending\<close> into
  the object it is handed keeps the monitor from returning at all: the run ends with the
  timeout.
\<close>

theorem monitor_final_status_claim_counterexample:
  "monitorTransaction (fetcher_always destination_tx_succeeded) example_request
       (options_with 2 0 (Some (callback_throwing_at 0)))
     = (Inr (response_with destination_tx_succeeded),
        [GetStatus example_request, OnUpdate (response_with destination_tx_succeeded),
         ConsoleWarn 1 (CallbackError ''boom''), SetTimeout 0,
         GetStatus example_request, OnUpdate (response_with destination_tx_succeeded)])
   \<and> monitorTransaction (fetcher_always destination_tx_succeeded) example_request
       (options_with 2 0 (Some (callback_writing bridge_pending)))
     = (Inl (MonitoringTimedOut 2),
        [GetStatus example_request, OnUpdate (response_with destination_tx_succeeded),
         SetTimeout 0,
         GetStatus example_request, OnUpdate (response_with destination_tx_succeeded)])
   \<and> status (response_with destination_tx_succeeded) \<in> set finalStates
   \<and> fetch_count (snd (monitorTransaction (fetcher_always destination_tx_succeeded)
         example_request (options_with 2 0 (Some (callback_throwing_at 0))))) \<noteq> 1
   \<and> sleep_count (snd (monitorTransaction (fetcher_always destination_tx_succeeded)
         example_request (options_with 2 0 (Some (callback_throwing_at 0))))) \<noteq> 0"
  by (simp add: monitorTransaction_def monitor_loop.simps options_with_def maxAttempts_of_def
      intervalMs_of_def loop_body_def getStatus_def call_onUpdate_def catch_block_def sleep_def
      fetcher_always_def callback_throwing_at_def callback_writing_def response_with_def
      finalStates_def)

text \<open>
  Claim C3. Whenever the loop is at an attempt within the budget (0-based \<open>a\<close>, the
  claim's \<open>k = a + 1\<close>) and the call of the status endpoint fails with \<open>e\<close>: if the
  attempt is the last one (\<open>a = maxAttempts - 1\<close>) the monitor throws that very \<open>e\<close>;
  otherwise the error is swallowed, the attempt adds to the trace only the fetch, the
  warning and one wait of \<open>intervalMs\<close> (no call of \<^verbatim>\<open>onUpdate\<close>), and the run goes on
  with attempt \<open>a + 1\<close>. Over a whole run, the arguments \<^verbatim>\<open>onUpdate\<close> was called with
  are exactly the statuses of the successful fetches, once each and in order (and
  nothing when no callback is given).
\<close>

theorem monitor_fetch_failure_handling:
  assumes "int a < maxA" and "f (fetch_count w) req = Inl e"
  shows "monitor_loop f cb req maxA ms a w =
           (if int a = maxA - 1
            then (Inl e, w @ [GetStatus req, ConsoleWarn (a + 1) e])
            else monitor_loop f cb req maxA ms (Suc a)
                   (w @ [GetStatus req, ConsoleWarn (a + 1) e, SetTimeout ms]))
       \<and> updates_of (snd (monitorTransaction f req opts)) =
           (if onUpdate opts = None then []
            else successes f req 0 (fetch_count (snd (monitorTransaction f req opts))))"
proof -
  have "monitor_loop f cb req maxA ms a w =
           (if int a = maxA - 1
            then (Inl e, w @ [GetStatus req, ConsoleWarn (a + 1) e])
            else monitor_loop f cb req maxA ms (Suc a)
                   (w @ [GetStatus req, ConsoleWarn (a + 1) e, SetTimeout ms]))"
    using assms(1) by (subst monitor_loop.simps) (simp add: loop_body_fetch_fails [of f w req, OF assms(2)])
  moreover
  obtain r w' where run: "monitorTransaction f req opts = (r, w')"
    by (cases "monitorTransaction f req opts")
  from monitor_loop_updates [OF run [unfolded monitorTransaction_def]]
  have "updates_of w' = (if onUpdate opts = None then [] else successes f req 0 (fetch_count w'))"
    by simp
  ultimately show ?thesis using run by simp
qed

text \<open>
  C3 on an endpoint that fails once and then answers \<^verbatim>\<open>bridge_filled\<close>: with a budget
  of 2 the failure of the first attempt is swallowed, with a budget of 1 it is rethrown.
\<close>

theorem monitor_fetch_failure_handling_witness:
  "monitor_loop (fetcher_scripted [Inl (NetworkError ''reset''), Inr (response_with bridge_filled)])
       (Some callback_quiet) example_request 2 100 0 []
     = monitor_loop (fetcher_scripted [Inl (NetworkError ''reset''), Inr (response_with bridge_filled)])
         (Some callback_quiet) example_request 2 100 (Suc 0)
         [GetStatus example_request, ConsoleWarn 1 (NetworkError ''reset''), SetTimeout 100]
   \<and> monitor_loop (fetcher_scripted [Inl (NetworkError ''reset''), Inr (response_with bridge_filled)])
       (Some callback_quiet) example_request 1 100 0 []
     = (Inl (NetworkError ''reset''),
        [GetStatus example_request, ConsoleWarn 1 (NetworkError ''reset'')])
   \<and> updates_of (snd (monitorTransaction
        (fetcher_scripted [Inl (NetworkError ''reset''), Inr (response_with bridge_filled)])
        example_request (options_with 2 100 (Some callback_quiet))))
     = [response_with bridge_filled]"
proof -
  let ?f = "fetcher_scripted [Inl (NetworkError ''reset''), Inr (response_with bridge_filled)]"
  let ?opts = "options_with 2 100 (Some callback_quiet)"
  have h: "?f (fetch_count []) example_request = Inl (NetworkError ''reset'')"
    by (simp add: fetcher_scripted_def)
  have n: "fetch_count (snd (monitorTransaction ?f example_request ?opts)) = 2"
    by (simp add: monitorTransaction_def monitor_loop.simps
      loop_body_def getStatus_def call_onUpdate_def catch_block_def sleep_def
      fetcher_scripted_def callback_quiet_def response_with_def finalStates_def)
  have s: "successes ?f example_request 0 2 = [response_with bridge_filled]"
    by (simp add: successes_def fetcher_scripted_def upt_rec)
  have a2: "int 0 < (2::int)" and a1: "int 0 < (1::int)" by simp_all
  show ?thesis
    using monitor_fetch_failure_handling [of 0 2 ?f "[]" example_request "NetworkError ''reset''"
        "Some callback_quiet" 100 ?opts, OF a2 h]
      monitor_fetch_failure_handling [of 0 1 ?f "[]" example_request "NetworkError ''reset''"
        "Some callback_quiet" 100 ?opts, OF a1 h]
    by (simp add: n s)
qed

text \<open>
  Claim C8. With \<open>maxAttempts \<le> 0\<close> the loop condition fails at once: the run has no
  effect at all (no fetch, no call of \<^verbatim>\<open>onUpdate\<close>, no wait) and throws the timeout
  error reporting that value of \<open>maxAttempts\<close>. Nothing rejects such a budget.
\<close>

theorem monitor_nonpositive_budget:
  assumes "maxAttempts_of opts \<le> 0"
  shows "monitorTransaction f req opts = (Inl (MonitoringTimedOut (maxAttempts_of opts)), [])"
  using assms by (simp add: monitorTransaction_def monitor_loop_exhausted)

text \<open>C8 at the budgets \<open>0\<close> and \<open>-3\<close>.\<close>

theorem monitor_nonpositive_budget_witness:
  "monitorTransaction (fetcher_always bridge_filled) example_request
       (options_with 0 5000 (Some callback_quiet))
     = (Inl (MonitoringTimedOut 0), [])
   \<and> monitorTransaction (fetcher_always bridge_filled) example_request
       (options_with (- 3) 5000 (Some callback_quiet))
     = (Inl (MonitoringTimedOut (- 3)), [])"
proof -
  have h0: "maxAttempts_of (options_with 0 5000 (Some callback_quiet)) \<le> 0" by simp
  have h3: "maxAttempts_of (options_with (- 3) 5000 (Some callback_quiet)) \<le> 0" by simp
  show ?thesis
    using monitor_nonpositive_budget [OF h0, of "fetcher_always bridge_filled" example_request]
      monitor_nonpositive_budget [OF h3, of "fetcher_always bridge_filled" example_request]
    by simp
qed

section \<open>Lemmas about the stream parser\<close>

subsection \<open>Splitting at line feeds\<close>

lemma split_newline_not_Nil [simp]: "split_newline s \<noteq> []"
  by (induction s) (auto split: list.splits)

lemma split_newline_append:
  "split_newline (a @ b) =
     butlast (split_newline a) @ split_newline (last (split_newline a) @ b)"
proof (induction a)
  case Nil
  then show ?case by simp
next
  case (Cons c cs)
  obtain l ls where s: "split_newline cs = l # ls"
    by (cases "split_newline cs") simp_all
  show ?case
  proof (cases "c = CHR 0x0A")
    case True
    with Cons show ?thesis by simp
  next
    case False
    show ?thesis
    proof (cases ls)
      case Nil
      with False s Cons show ?thesis
        by (cases "split_newline (l @ b)") simp_all
    next
      case (Cons l' ls')
      with False s Cons.IH show ?thesis by simp
    qed
  qed
qed

lemma last_split_newline_no_newline: "CHR 0x0A \<notin> set (last (split_newline s))"
  by (induction s) (auto split: list.splits)

lemma split_newline_no_newline: "CHR 0x0A \<notin> set s \<Longrightarrow> split_newline s = [s]"
  by (induction s) auto

lemma split_newline_line:
  "CHR 0x0A \<notin> set l \<Longrightarrow> split_newline (l @ CHR 0x0A # b) = l # split_newline b"
  by (induction l) auto

lemma butlast_split_newline_snoc:
  "butlast (split_newline (a @ b)) =
     butlast (split_newline a) @ butlast (split_newline (last (split_newline a) @ b))"
  by (subst split_newline_append) (simp add: butlast_append)

lemma concat_split_newline:
  "concat (map (\<lambda>l. l @ [CHR 0x0A]) (butlast (split_newline s))) @ last (split_newline s) = s"
  by (induction s) (auto split: list.splits)

subsection \<open>Handling lines\<close>

lemma handle_line_no_throw: "fst (handle_line env l u) \<noteq> Throws x"
  by (auto simp: handle_line_def Let_def split: prod.splits flow.splits)

lemma for_lines_no_throw: "fst (for_lines env ls u) \<noteq> Throws x"
proof (induction ls arbitrary: u)
  case Nil
  then show ?case by simp
next
  case (Cons l ls)
  obtain fl u' where h: "handle_line env l u = (fl, u')" by (cases "handle_line env l u")
  with handle_line_no_throw [of env l u] Cons show ?case
    by (cases fl) auto
qed

lemma for_lines_append:
  "for_lines env (xs @ ys) u =
     (case for_lines env xs u of (Falls, u') \<Rightarrow> for_lines env ys u' | (fl, u') \<Rightarrow> (fl, u'))"
proof (induction xs arbitrary: u)
  case Nil
  then show ?case by simp
next
  case (Cons l ls)
  obtain fl u' where h: "handle_line env l u = (fl, u')" by (cases "handle_line env l u")
  with Cons show ?case by (cases fl) auto
qed

text \<open>What the loop does depends on the chunks only through their concatenation.\<close>

lemma read_loop_concat:
  "CHR 0x0A \<notin> set buffer \<Longrightarrow>
   read_loop env chunks e buffer u =
     finish e (for_lines env (butlast (split_newline (buffer @ concat chunks))) u)"
proof (induction chunks arbitrary: buffer u)
  case Nil
  then show ?case
    by (cases e) (simp_all add: split_newline_no_newline finish_def)
next
  case (Cons c cs)
  let ?b = "last (split_newline (buffer @ c))"
  obtain fl u' where f: "for_lines env (butlast (split_newline (buffer @ c))) u = (fl, u')"
    by (cases "for_lines env (butlast (split_newline (buffer @ c))) u")
  have nl: "CHR 0x0A \<notin> set ?b" by (rule last_split_newline_no_newline)
  have sp: "butlast (split_newline (buffer @ c @ concat cs)) =
      butlast (split_newline (buffer @ c)) @ butlast (split_newline (?b @ concat cs))"
    using butlast_split_newline_snoc [of "buffer @ c" "concat cs"] by simp
  show ?case
  proof (cases fl)
    case Falls
    with f Cons.IH [OF nl, of u'] show ?thesis
      by (simp add: on_chunk_def Let_def sp for_lines_append)
  next
    case Returns
    with f show ?thesis
      by (simp add: on_chunk_def Let_def sp for_lines_append finish_def)
  next
    case (Throws x)
    with f for_lines_no_throw [of env "butlast (split_newline (buffer @ c))" u x]
    show ?thesis by simp
  qed
qed

subsection \<open>The calls a line adds\<close>

lemma completions_simps [simp]:
  "completions [] = 0"
  "completions (u @ v) = completions u + completions v"
  "completions (c # u) = (if c = SetIsComplete True then 1 else 0) + completions u"
  by (simp_all add: completions_def)

lemma routes_from_append: "routes_from rs (u @ d) = routes_from (routes_from rs u) d"
  by (induction rs u rule: routes_from.induct) simp_all

lemma routes_of_append: "routes_of (u @ d) = routes_from (routes_of u) d"
  by (simp add: routes_of_def routes_from_append)

lemma length_routes_from:
  "length rs1 = length rs2 \<Longrightarrow> length (routes_from rs1 d) = length (routes_from rs2 d)"
  by (induction rs1 d arbitrary: rs2 rule: routes_from.induct) simp_all

lemma same_route_count_append:
  "length (routes_of u1) = length (routes_of u2) \<Longrightarrow>
   length (routes_of (u1 @ d)) = length (routes_of (u2 @ d))"
  unfolding routes_of_append by (rule length_routes_from)

text \<open>
  Each block adds calls to the end of the record, declares the stream complete exactly
  when it returns, and adds the same calls in any state with as many routes.
\<close>

lemma fatal_branch_rebase:
  "fatal_branch env data u = (fst (fatal_branch env data []), u @ snd (fatal_branch env data []))"
  by (simp add: fatal_branch_def split: sum.splits option.splits)

lemma fatal_branch_completions:
  "fst (fatal_branch env data []) \<noteq> Falls
   \<and> completions (snd (fatal_branch env data [])) =
       (if fst (fatal_branch env data []) = Returns then 1 else 0)"
  by (simp add: fatal_branch_def split: sum.splits option.splits)

lemma fatal_branch_adds:
  "\<exists>fl d. fl \<noteq> Falls \<and> completions d = (if fl = Returns then 1 else 0)
     \<and> (\<forall>u. fatal_branch env data u = (fl, u @ d))"
  using fatal_branch_rebase [of env data] fatal_branch_completions [of env data] by blast

lemma result_branch_rebase:
  "result_branch ev u = (fst (result_branch ev []), u @ snd (result_branch ev []))"
  by (simp add: result_branch_def split: sum.splits)

lemma result_branch_completions:
  "fst (result_branch ev []) \<noteq> Falls
   \<and> completions (snd (result_branch ev [])) =
       (if fst (result_branch ev []) = Returns then 1 else 0)"
  by (simp add: result_branch_def split: sum.splits)

lemma result_branch_adds:
  "\<exists>fl d. fl \<noteq> Falls \<and> completions d = (if fl = Returns then 1 else 0)
     \<and> (\<forall>u. result_branch ev u = (fl, u @ d))"
  using result_branch_rebase [of ev] result_branch_completions [of ev] by blast

lemma route_branch_rebase:
  "length (routes_of u) = length (routes_of u0) \<Longrightarrow>
   route_branch dd ev u =
     (fst (route_branch dd ev u0), u @ drop (length u0) (snd (route_branch dd ev u0)))"
  by (simp add: route_branch_def Let_def split: sum.splits)

lemma route_branch_completions:
  "fst (route_branch dd ev u0) \<noteq> Returns
   \<and> completions (drop (length u0) (snd (route_branch dd ev u0))) = 0"
  by (simp add: route_branch_def Let_def split: sum.splits)

lemma routes_of_replicate: "length (routes_of (replicate n (SetRoutesAppend JNull))) = n"
proof -
  have "routes_from rs (replicate n (SetRoutesAppend JNull)) = rs @ replicate n JNull" for rs
    by (induction n arbitrary: rs) (simp_all add: replicate_app_Cons_same)
  then show ?thesis by (simp add: routes_of_def)
qed

lemma route_branch_adds:
  "\<exists>fl d. fl \<noteq> Returns \<and> completions d = 0
     \<and> (\<forall>u. length (routes_of u) = n \<longrightarrow> route_branch dd ev u = (fl, u @ d))"
proof -
  let ?u0 = "replicate n (SetRoutesAppend JNull)"
  let ?fl = "fst (route_branch dd ev ?u0)"
  let ?d = "drop (length ?u0) (snd (route_branch dd ev ?u0))"
  have r: "route_branch dd ev u = (?fl, u @ ?d)" if "length (routes_of u) = n" for u
    by (rule route_branch_rebase) (simp only: that routes_of_replicate)
  have c: "?fl \<noteq> Returns" "completions ?d = 0"
    using route_branch_completions [of dd ev ?u0] by blast+
  show ?thesis
  proof (intro exI conjI allI impI)
    show "?fl \<noteq> Returns" by (rule c)
    show "completions ?d = 0" by (rule c)
    show "route_branch dd ev u = (?fl, u @ ?d)" if "length (routes_of u) = n" for u
      using that by (rule r)
  qed
qed

lemma try_block_adds:
  "\<exists>fl d. completions d = (if fl = Returns then 1 else 0)
     \<and> (\<forall>u. length (routes_of u) = n \<longrightarrow> try_block env x u = (fl, u @ d))"
proof (cases "JSON_parse env x")
  case None
  then show ?thesis
    by (intro exI [of _ "Throws (SyntaxError ''Unexpected token'')"] exI [of _ "[]"])
       (simp add: try_block_def)
next
  case (Some data)
  have n1: "length (routes_of (u @ [ConsoleInfo data])) = n" if "length (routes_of u) = n" for u
    using that by (simp add: routes_of_append)
  have "\<exists>fl d. completions d = (if fl = Returns then 1 else 0)
       \<and> (\<forall>u. length (routes_of u) = n \<longrightarrow>
             try_block env x u = (fl, (u @ [ConsoleInfo data]) @ d))"
  proof (cases "error_in data")
    case (Inl e)
    with Some show ?thesis
      by (intro exI [of _ "Throws e"] exI [of _ "[]"]) (simp add: try_block_def)
  next
    case (Inr b)
    show ?thesis
    proof (cases b)
      case True
      obtain fl d where "fl \<noteq> Falls" "completions d = (if fl = Returns then 1 else 0)"
        "\<forall>u. fatal_branch env data u = (fl, u @ d)"
        using fatal_branch_adds by blast
      with Some Inr True show ?thesis
        by (intro exI [of _ fl] exI [of _ d]) (simp add: try_block_def)
    next
      case False
      show ?thesis
      proof (cases "get_prop data ''data''")
        case (Inl e)
        with Some Inr False show ?thesis
          by (intro exI [of _ "Throws e"] exI [of _ "[]"]) (simp add: try_block_def)
      next
        case d: (Inr dd)
        show ?thesis
        proof (cases "get_prop dd ''event''")
          case (Inl e)
          with Some Inr False d show ?thesis
            by (intro exI [of _ "Throws e"] exI [of _ "[]"]) (simp add: try_block_def)
        next
          case ev: (Inr ev)
          show ?thesis
          proof (cases "get_prop ev ''type''")
            case (Inl e)
            with Some Inr False d ev show ?thesis
              by (intro exI [of _ "Throws e"] exI [of _ "[]"]) (simp add: try_block_def)
          next
            case ty: (Inr ty)
            consider "ty = JString ''route''" | "ty = JString ''result''"
              | "ty \<noteq> JString ''route''" "ty \<noteq> JString ''result''"
              by blast
            then show ?thesis
            proof cases
              case 1
              obtain fl r where "fl \<noteq> Returns" "completions r = 0"
                "\<forall>u. length (routes_of u) = n \<longrightarrow> route_branch dd ev u = (fl, u @ r)"
                using route_branch_adds by blast
              with Some Inr False d ev ty 1 n1 show ?thesis
                by (intro exI [of _ fl] exI [of _ r]) (simp add: try_block_def)
            next
              case 2
              obtain fl r where "fl \<noteq> Falls" "completions r = (if fl = Returns then 1 else 0)"
                "\<forall>u. result_branch ev u = (fl, u @ r)"
                using result_branch_adds by blast
              with Some Inr False d ev ty 2 show ?thesis
                by (intro exI [of _ fl] exI [of _ r]) (simp add: try_block_def)
            next
              case 3
              with Some Inr False d ev ty show ?thesis
                by (intro exI [of _ Falls] exI [of _ "[]"]) (simp add: try_block_def)
            qed
          qed
        qed
      qed
    qed
  qed
  then obtain fl d where c: "completions d = (if fl = Returns then 1 else 0)"
    and t: "\<forall>u. length (routes_of u) = n \<longrightarrow>
             try_block env x u = (fl, (u @ [ConsoleInfo data]) @ d)"
    by blast
  show ?thesis
    using c t by (intro exI [of _ fl] exI [of _ "ConsoleInfo data # d"]) simp
qed

lemma handle_line_adds:
  "\<exists>fl d. (fl = Falls \<or> fl = Returns) \<and> completions d = (if fl = Returns then 1 else 0)
     \<and> (\<forall>u. length (routes_of u) = n \<longrightarrow> handle_line env l u = (fl, u @ d))"
proof -
  obtain fl d where t: "completions d = (if fl = Returns then 1 else 0)"
    "\<forall>u. length (routes_of u) = n \<longrightarrow> try_block env (drop 6 l) u = (fl, u @ d)"
    using try_block_adds [of n env "drop 6 l"] by (elim exE conjE) (rule that)
  show ?thesis
  proof (cases "startsWith l ''data: '' \<and> trim (drop 6 l) \<noteq> []")
    case False
    then show ?thesis
      by (intro exI [of _ Falls] exI [of _ "[]"]) (auto simp: handle_line_def Let_def)
  next
    case True
    show ?thesis
    proof (cases fl)
      case Falls
      with t True show ?thesis
        by (intro exI [of _ Falls] exI [of _ d]) (simp add: handle_line_def)
    next
      case Returns
      with t True show ?thesis
        by (intro exI [of _ Returns] exI [of _ d]) (simp add: handle_line_def)
    next
      case (Throws x)
      with t True show ?thesis
        by (intro exI [of _ Falls]
              exI [of _ "d @ [ConsoleError (drop 6 l),
                              SetError (Some ''Error parsing server response'')]"])
           (simp add: handle_line_def)
    qed
  qed
qed

lemma for_lines_adds:
  "\<exists>fl d. (fl = Falls \<or> fl = Returns) \<and> completions d = (if fl = Returns then 1 else 0)
     \<and> (\<forall>u. length (routes_of u) = n \<longrightarrow> for_lines env ls u = (fl, u @ d))"
proof (induction ls arbitrary: n)
  case Nil
  then show ?case
    by (intro exI [of _ Falls] exI [of _ "[]"]) simp
next
  case (Cons l ls)
  obtain fl d where h: "fl = Falls \<or> fl = Returns"
    "completions d = (if fl = Returns then 1 else 0)"
    "\<forall>u. length (routes_of u) = n \<longrightarrow> handle_line env l u = (fl, u @ d)"
    using handle_line_adds [of n env l] by (elim exE conjE) (rule that)
  show ?case
  proof (cases "fl = Returns")
    case True
    with h show ?thesis
      by (intro exI [of _ Returns] exI [of _ d]) simp
  next
    case False
    with h have fl: "fl = Falls" and d0: "completions d = 0" by auto
    let ?m = "length (routes_from (replicate n JNull) d)"
    obtain fl' d' where r: "fl' = Falls \<or> fl' = Returns"
      "completions d' = (if fl' = Returns then 1 else 0)"
      "\<forall>u. length (routes_of u) = ?m \<longrightarrow> for_lines env ls u = (fl', u @ d')"
      using Cons.IH [of ?m] by (elim exE conjE) (rule that)
    have m: "length (routes_of (u @ d)) = ?m" if "length (routes_of u) = n" for u
      unfolding routes_of_append
      by (rule length_routes_from) (simp add: that)
    show ?thesis
      using h(3) fl d0 r m
      by (intro exI [of _ fl'] exI [of _ "d @ d'"]) simp
  qed
qed

subsection \<open>Fragments, filters and the two kinds of payload\<close>

lemma split_newline_snoc_LF: "split_newline (x @ [CHR 0x0A]) = split_newline x @ [[]]"
proof -
  have "split_newline (x @ [CHR 0x0A]) =
      butlast (split_newline x) @ split_newline (last (split_newline x) @ [CHR 0x0A])"
    by (rule split_newline_append)
  also have "split_newline (last (split_newline x) @ [CHR 0x0A]) = [last (split_newline x), []]"
    using split_newline_line [OF last_split_newline_no_newline, of x "[]"] by simp
  finally show ?thesis by simp
qed

lemma split_newline_fragment:
  "CHR 0x0A \<notin> set frag \<Longrightarrow> split_newline (x @ CHR 0x0A # frag) = split_newline x @ [frag]"
proof -
  assume f: "CHR 0x0A \<notin> set frag"
  have "split_newline ((x @ [CHR 0x0A]) @ frag) =
      butlast (split_newline (x @ [CHR 0x0A])) @
      split_newline (last (split_newline (x @ [CHR 0x0A])) @ frag)"
    by (rule split_newline_append)
  with f show ?thesis
    by (simp add: split_newline_snoc_LF split_newline_no_newline)
qed

lemma aligned_last_split:
  "pre = [] \<or> last pre = CHR 0x0A \<Longrightarrow> last (split_newline pre) = []"
proof (cases "pre = []")
  case True
  then show ?thesis by simp
next
  case False
  assume "pre = [] \<or> last pre = CHR 0x0A"
  with False have "pre = butlast pre @ [CHR 0x0A]"
    by (metis append_butlast_last_id)
  then have "split_newline pre = split_newline (butlast pre) @ [[]]"
    by (metis split_newline_snoc_LF)
  then show ?thesis by simp
qed

lemma on_chunk_fragment:
  assumes "CHR 0x0A \<notin> set frag"
  shows "on_chunk env (c @ CHR 0x0A # frag) b u =
           (case on_chunk env (c @ [CHR 0x0A]) b u of (fl, u', b') \<Rightarrow> (fl, u', frag))"
proof -
  have 1: "split_newline (b @ c @ CHR 0x0A # frag) = split_newline (b @ c) @ [frag]"
    using split_newline_fragment [OF assms, of "b @ c"] by simp
  have 2: "split_newline (b @ c @ [CHR 0x0A]) = split_newline (b @ c) @ [[]]"
    using split_newline_snoc_LF [of "b @ c"] by simp
  show ?thesis
    by (simp add: on_chunk_def Let_def 1 2 split: prod.splits)
qed

lemma on_chunk_no_newline:
  assumes "CHR 0x0A \<notin> set b" "CHR 0x0A \<notin> set frag"
  shows "on_chunk env frag b u = (Falls, u, b @ frag)"
  using assms by (simp add: on_chunk_def Let_def split_newline_no_newline)

lemma on_chunk_buffer: "on_chunk env (frag @ v) [] u = on_chunk env v frag u"
  by (simp add: on_chunk_def)

lemma startsWith_data_no_space:
  "payload = [] \<or> hd payload \<noteq> CHR '' '' \<Longrightarrow> \<not> startsWith (''data:'' @ payload) ''data: ''"
  by (cases payload) (auto simp: startsWith_def)

lemma trim_empty_iff: "trim s = [] \<longleftrightarrow> (\<forall>c\<in>set s. is_whitespace c)"
proof
  assume "trim s = []"
  then have "dropWhile is_whitespace (rev (dropWhile is_whitespace s)) = []"
    by (simp add: trim_def)
  then have "\<forall>c\<in>set (dropWhile is_whitespace s). is_whitespace c"
    by (simp add: dropWhile_eq_Nil_conv)
  then have "dropWhile is_whitespace s = []"
    by (metis hd_dropWhile list.set_sel(1))
  then show "\<forall>c\<in>set s. is_whitespace c"
    by (simp add: dropWhile_eq_Nil_conv)
next
  assume "\<forall>c\<in>set s. is_whitespace c"
  then show "trim s = []"
    by (auto simp: trim_def dest: set_dropWhileD)
qed

lemma for_lines_rebase:
  assumes "length (routes_of u1) = length (routes_of u2)"
  shows "fst (for_lines env ls u1) = fst (for_lines env ls u2)
       \<and> drop (length u1) (snd (for_lines env ls u1)) = drop (length u2) (snd (for_lines env ls u2))"
proof -
  obtain fl d where
    "\<forall>u. length (routes_of u) = length (routes_of u2) \<longrightarrow> for_lines env ls u = (fl, u @ d)"
    using for_lines_adds [of "length (routes_of u2)" env ls] by (elim exE conjE) (rule that)
  with assms have "for_lines env ls u1 = (fl, u1 @ d)" "for_lines env ls u2 = (fl, u2 @ d)"
    by simp_all
  then show ?thesis by simp
qed

lemma handle_line_parse_error:
  assumes "startsWith l ''data: ''" and "trim (drop 6 l) \<noteq> []"
    and "JSON_parse env (drop 6 l) = None"
  shows "handle_line env l u =
     (Falls, u @ [ConsoleError (drop 6 l), SetError (Some ''Error parsing server response'')])"
  using assms by (simp add: handle_line_def try_block_def)

lemma handle_line_route:
  assumes "startsWith l ''data: ''" and "trim (drop 6 l) \<noteq> []"
    and "JSON_parse env (drop 6 l) = Some (StreamEvent z ''route'' payload)"
    and "get_prop payload ''route'' = Inr r"
    and "get_prop payload ''allowanceTarget'' = Inr target"
  shows "handle_line env l u =
     (Falls, u @ [ConsoleInfo (StreamEvent z ''route'' payload),
                  SetRoutesAppend (JObject
                    (AList.update ''displayIndex'' (JNumber (of_nat (length (routes_of u) + 1)))
                       (normalize_route payload r target z)))])"
  using assms
  by (simp add: handle_line_def try_block_def StreamEvent_def route_branch_def routes_of_append
      Let_def)

lemma handle_line_fatal:
  assumes "startsWith l ''data: ''" and "trim (drop 6 l) \<noteq> []"
    and "JSON_parse env (drop 6 l) = Some (JObject ps)"
    and "map_of ps ''error'' = Some err"
    and "get_prop err ''message'' = Inr m"
    and "to_string (Number_toString env) m = Some s"
  shows "handle_line env l u =
     (Returns, u @ [ConsoleInfo (JObject ps), SetError (Some (''Fatal error: '' @ s)),
                    SetIsStreaming False, SetIsComplete True])"
proof -
  have "''error'' \<in> fst ` set ps"
    using assms(4) by (metis domI dom_map_of_conv_image_fst)
  with assms show ?thesis
    by (simp add: handle_line_def try_block_def fatal_branch_def)
qed

lemma handle_line_result:
  assumes "startsWith l ''data: ''" and "trim (drop 6 l) \<noteq> []"
    and "JSON_parse env (drop 6 l) = Some (StreamEvent z ''result'' payload)"
    and "get_prop payload ''liquidityAvailable'' = Inr v"
  shows "handle_line env l u =
     (Returns, u @ [ConsoleInfo (StreamEvent z ''result'' payload), SetLiquidityAvailable v,
                    SetIsStreaming False, SetIsComplete True])"
  using assms
  by (simp add: handle_line_def try_block_def StreamEvent_def result_branch_def)

lemma read_loop_stops:
  assumes "CHR 0x0A \<notin> set l" and "pre = [] \<or> last pre = CHR 0x0A"
    and "concat chunks = pre @ l @ CHR 0x0A # rest"
    and "for_lines env (butlast (split_newline pre)) u = (Falls, u')"
    and "fst (handle_line env l u') = Returns"
  shows "read_loop env chunks e [] u = (Returns, snd (handle_line env l u'))"
proof -
  have "split_newline (pre @ l @ CHR 0x0A # rest) =
      butlast (split_newline pre) @ split_newline (last (split_newline pre) @ l @ CHR 0x0A # rest)"
    by (rule split_newline_append)
  then have "butlast (split_newline (pre @ l @ CHR 0x0A # rest)) =
      butlast (split_newline pre) @ l # butlast (split_newline rest)"
    using assms(1,2) by (simp add: aligned_last_split split_newline_line butlast_append)
  moreover obtain w where "handle_line env l u' = (Returns, w)"
    using assms(5) by (cases "handle_line env l u'") simp
  ultimately show ?thesis
    using assms(3,4)
    by (simp add: read_loop_concat for_lines_append finish_def del: read_loop.simps)
qed

lemma read_loop_completions:
  "completions (drop (length u) (snd (read_loop env chunks e [] u))) \<le> 1"
proof -
  obtain fl d where c: "completions d = (if fl = Returns then 1 else 0)"
    and "\<forall>w. length (routes_of w) = length (routes_of u) \<longrightarrow>
           for_lines env (butlast (split_newline (concat chunks))) w = (fl, w @ d)"
    using for_lines_adds [of "length (routes_of u)" env "butlast (split_newline (concat chunks))"]
    by (elim exE conjE) (rule that)
  then have "for_lines env (butlast (split_newline (concat chunks))) u = (fl, u @ d)"
    by simp
  then have "snd (read_loop env chunks e [] u) = u @ d"
    by (cases fl; cases e) (simp_all add: read_loop_concat finish_def del: read_loop.simps)
  with c show ?thesis by simp
qed

section \<open>Properties of the stream parser\<close>

text \<open>
  Claim C4. Cut the text \<open>s\<close> of a stream at any position \<open>i\<close> and feed the two pieces
  as successive chunks: the loop ends the same way and has made exactly the same calls,
  in the same order and with the same display indices, as when \<open>s\<close> arrives as one
  chunk; so does the whole of \<^verbatim>\<open>startStreaming\<close>. This holds for every text, not only
  for a well-formed stream. What follows the last line feed of a chunk (\<open>frag\<close>) is not
  handled as a line: the pass over the chunk makes the calls it makes without it and
  leaves it in the buffer, and the next pass sees it at the front of the next chunk. A
  chunk without a line feed makes no call and is appended to the buffer.
\<close>

theorem chunk_boundary_invariance:
  "read_loop env [take i s, drop i s] e [] u = read_loop env [s] e [] u
   \<and> startStreaming env (Body [take i s, drop i s] e) u = startStreaming env (Body [s] e) u
   \<and> (CHR 0x0A \<notin> set frag \<longrightarrow>
        on_chunk env (c @ CHR 0x0A # frag) b u =
          (case on_chunk env (c @ [CHR 0x0A]) b u of (fl, u', b') \<Rightarrow> (fl, u', frag))
      \<and> read_loop env ((c @ CHR 0x0A # frag) # v # chunks) e b u =
          read_loop env ((c @ [CHR 0x0A]) # (frag @ v) # chunks) e b u)
   \<and> (CHR 0x0A \<notin> set b \<and> CHR 0x0A \<notin> set frag \<longrightarrow>
        on_chunk env frag b u = (Falls, u, b @ frag))"
proof -
  have two: "read_loop env [take i s, drop i s] e [] w = read_loop env [s] e [] w" for w
    by (simp add: read_loop_concat del: read_loop.simps)
  have start: "startStreaming env (Body [take i s, drop i s] e) u = startStreaming env (Body [s] e) u"
    unfolding startStreaming_def Let_def connection.case two ..
  have frag: "read_loop env ((c @ CHR 0x0A # frag) # v # chunks) e b u =
          read_loop env ((c @ [CHR 0x0A]) # (frag @ v) # chunks) e b u"
    if f: "CHR 0x0A \<notin> set frag"
  proof -
    obtain fl u' b' where o: "on_chunk env (c @ [CHR 0x0A]) b u = (fl, u', b')"
      by (cases "on_chunk env (c @ [CHR 0x0A]) b u")
    have b': "b' = []"
      using o split_newline_snoc_LF [of "b @ c"] by (auto simp: on_chunk_def Let_def split: prod.splits)
    from o have o': "on_chunk env (c @ CHR 0x0A # frag) b u = (fl, u', frag)"
      by (simp add: on_chunk_fragment [OF f])
    show ?thesis
      by (cases fl) (simp_all add: o o' b' on_chunk_buffer)
  qed
  show ?thesis
    using two [of u] start frag on_chunk_fragment [of frag env c b u]
      on_chunk_no_newline [of b frag env u]
    by blast
qed

text \<open>
  C4 on a stream of a nested route and a result cut inside the first line, and on a chunk
  that ends with the first twelve characters of a data line.
\<close>

theorem chunk_boundary_invariance_witness:
  "read_loop example_env
       [take 20 (data_line nested_route_text @ data_line result_text),
        drop 20 (data_line nested_route_text @ data_line result_text)] Done [] []
     = (Returns,
        [ConsoleInfo nested_route_value, SetRoutesAppend (shown_route 1),
         ConsoleInfo result_value, SetLiquidityAvailable (JBool True),
         SetIsStreaming False, SetIsComplete True])
   \<and> read_loop example_env [data_line nested_route_text @ data_line result_text] Done [] []
     = (Returns,
        [ConsoleInfo nested_route_value, SetRoutesAppend (shown_route 1),
         ConsoleInfo result_value, SetLiquidityAvailable (JBool True),
         SetIsStreaming False, SetIsComplete True])
   \<and> on_chunk example_env ((''data: '' @ flat_route_text) @ CHR 0x0A # take 12 (data_line result_text))
         [] []
     = (Falls, [ConsoleInfo flat_route_value, SetRoutesAppend (shown_route 1)],
        take 12 (data_line result_text))
   \<and> on_chunk example_env (take 12 (data_line result_text)) ''da'' []
     = (Falls, [], ''da'' @ take 12 (data_line result_text))"
proof -
  let ?s = "data_line nested_route_text @ data_line result_text"
  let ?frag = "take 12 (data_line result_text)"
  let ?c = "''data: '' @ flat_route_text"
  note t = chunk_boundary_invariance [of example_env 20 ?s Done "[]" ?frag ?c "[]" "[]" "[]"]
  note t' = chunk_boundary_invariance [of example_env 20 ?s Done "[]" ?frag ?c "''da''" "[]" "[]"]
  have one: "read_loop example_env [?s] Done [] []
     = (Returns,
        [ConsoleInfo nested_route_value, SetRoutesAppend (shown_route 1),
         ConsoleInfo result_value, SetLiquidityAvailable (JBool True),
         SetIsStreaming False, SetIsComplete True])"
    by code_simp
  have f: "CHR 0x0A \<notin> set ?frag" by code_simp
  have b: "CHR 0x0A \<notin> set ''da''" by simp
  have whole: "on_chunk example_env (?c @ [CHR 0x0A]) [] []
     = (Falls, [ConsoleInfo flat_route_value, SetRoutesAppend (shown_route 1)], [])"
    by code_simp
  from t have "read_loop example_env [take 20 ?s, drop 20 ?s] Done [] []
       = read_loop example_env [?s] Done [] []"
    by (rule conjunct1)
  moreover from t f have "on_chunk example_env (?c @ CHR 0x0A # ?frag) [] [] =
      (case on_chunk example_env (?c @ [CHR 0x0A]) [] [] of (fl, u', b') \<Rightarrow> (fl, u', ?frag))"
    by blast
  moreover from t' f b have "on_chunk example_env ?frag ''da'' [] = (Falls, [], ''da'' @ ?frag)"
    by blast
  ultimately show ?thesis
    by (simp only: one whole prod.case simp_thms)
qed

text \<open>
  Claim C5, as amended. Whatever the stream and its chunks, the loop declares the stream
  complete at most once. A data line with a payload that is not blank, whose parsed body
  is an object with an \<^verbatim>\<open>error\<close> property from which \<^verbatim>\<open>message\<close> can be read (the
  value of \<^verbatim>\<open>error\<close> is not \<^verbatim>\<open>null\<close>) and whose message converts to text, is handled
  by setting the error to \<^verbatim>\<open>Fatal error: \<close> followed by that text, marking the stream
  complete and returning. A message converts to text when it is missing, \<^verbatim>\<open>null\<close>, a
  boolean, a number or a string; an object with a \<^verbatim>\<open>toString\<close> property of its own
  does not. A data line with a payload that is not blank, whose parsed body is a stream
  event of type \<^verbatim>\<open>result\<close> whose \<^verbatim>\<open>data\<close> is neither \<^verbatim>\<open>null\<close> nor missing, is
  handled by setting the liquidity flag, marking the stream complete and returning. And
  when the handler returns on a line \<open>l\<close> that no returning line precedes, the run
  returns with the calls made up to and including \<open>l\<close>: nothing that follows \<open>l\<close> in the
  stream (\<open>rest\<close>), however it is cut into chunks and however the reader ends, adds a
  call.
\<close>

theorem terminal_event_ends_stream:
  "completions (drop (length u) (snd (read_loop env chunks e [] u))) \<le> 1
   \<and> (startsWith l ''data: '' \<and> trim (drop 6 l) \<noteq> []
        \<and> JSON_parse env (drop 6 l) = Some (JObject ps)
        \<and> map_of ps ''error'' = Some err
        \<and> get_prop err ''message'' = Inr m
        \<and> to_string (Number_toString env) m = Some s \<longrightarrow>
      handle_line env l u' =
        (Returns, u' @ [ConsoleInfo (JObject ps), SetError (Some (''Fatal error: '' @ s)),
                        SetIsStreaming False, SetIsComplete True]))
   \<and> (startsWith l ''data: '' \<and> trim (drop 6 l) \<noteq> []
        \<and> JSON_parse env (drop 6 l) = Some (StreamEvent z ''result'' payload)
        \<and> get_prop payload ''liquidityAvailable'' = Inr v \<longrightarrow>
      handle_line env l u' =
        (Returns, u' @ [ConsoleInfo (StreamEvent z ''result'' payload), SetLiquidityAvailable v,
                        SetIsStreaming False, SetIsComplete True]))
   \<and> (CHR 0x0A \<notin> set l \<and> (pre = [] \<or> last pre = CHR 0x0A)
        \<and> concat chunks = pre @ l @ CHR 0x0A # rest
        \<and> for_lines env (butlast (split_newline pre)) u = (Falls, u')
        \<and> fst (handle_line env l u') = Returns \<longrightarrow>
      read_loop env chunks e [] u = (Returns, snd (handle_line env l u')))
   \<and> (m = JUndefined \<or> m = JNull \<or> (\<exists>b. m = JBool b) \<or> (\<exists>q. m = JNumber q)
        \<or> (\<exists>x. m = JString x) \<longrightarrow>
      to_string (Number_toString env) m \<noteq> None)
   \<and> (''toString'' \<in> fst ` set qs \<longrightarrow> to_string (Number_toString env) (JObject qs) = None)"
proof -
  have "to_string (Number_toString env) m \<noteq> None"
    if "m = JUndefined \<or> m = JNull \<or> (\<exists>b. m = JBool b) \<or> (\<exists>q. m = JNumber q)
        \<or> (\<exists>x. m = JString x)"
    using that by auto
  moreover have "to_string (Number_toString env) (JObject qs) = None"
    if "''toString'' \<in> fst ` set qs"
    using that by simp
  ultimately show ?thesis
    using read_loop_completions [of u env chunks e]
      handle_line_fatal [of l env ps err m s u']
      handle_line_result [of l env z payload v u']
      read_loop_stops [of l pre chunks rest env u u' e]
    by blast
qed

text \<open>
  C5 on a stream of a nested route, a fatal error and a flat route, and on the handling
  of a result line.
\<close>

theorem terminal_event_ends_stream_witness:
  "read_loop example_env
       [data_line nested_route_text @ (''data: '' @ fatal_text) @ CHR 0x0A # data_line flat_route_text]
       Done [] []
     = (Returns,
        [ConsoleInfo nested_route_value, SetRoutesAppend (shown_route 1),
         ConsoleInfo fatal_value, SetError (Some ''Fatal error: no route''),
         SetIsStreaming False, SetIsComplete True])
   \<and> handle_line example_env (''data: '' @ result_text) []
     = (Returns,
        [ConsoleInfo result_value, SetLiquidityAvailable (JBool True),
         SetIsStreaming False, SetIsComplete True])
   \<and> completions (snd (read_loop example_env
         [data_line nested_route_text @ (''data: '' @ fatal_text) @ CHR 0x0A # data_line flat_route_text]
         Done [] [])) \<le> 1
   \<and> to_string (Number_toString example_env) (JString ''no route'') \<noteq> None
   \<and> to_string (Number_toString example_env) (JObject [(''toString'', JNumber 1)]) = None"
proof -
  let ?pre = "data_line nested_route_text"
  let ?l = "''data: '' @ fatal_text"
  let ?rest = "data_line flat_route_text"
  let ?ps = "[(''error'', JObject [(''message'', JString ''no route''),
                                   (''code'', JString ''E1''), (''type'', JString ''fatal'')])]"
  let ?err = "JObject [(''message'', JString ''no route''),
                       (''code'', JString ''E1''), (''type'', JString ''fatal'')]"
  let ?u' = "[ConsoleInfo nested_route_value, SetRoutesAppend (shown_route 1)]"
  let ?payload = "JObject [(''liquidityAvailable'', JBool True)]"
  note fatal = terminal_event_ends_stream
    [of "[]" example_env "[?pre @ ?l @ CHR 0x0A # ?rest]" Done ?l ?ps ?err "JString ''no route''"
        "''no route''" ?u' "JString ''z1''" ?payload "JBool True" ?pre ?rest]
  note result = terminal_event_ends_stream
    [of "[]" example_env "[]" Done "''data: '' @ result_text" ?ps ?err "JString ''no route''"
        "''no route''" "[]" "JString ''z1''" ?payload "JBool True" "[]" "[]"]
  have f1: "startsWith ?l ''data: ''" by code_simp
  have f2: "trim (drop 6 ?l) \<noteq> []" by code_simp
  have f3: "JSON_parse example_env (drop 6 ?l) = Some (JObject ?ps)" by code_simp
  have f4: "map_of ?ps ''error'' = Some ?err" by simp
  have f5: "get_prop ?err ''message'' = Inr (JString ''no route'')" by simp
  have f6: "to_string (Number_toString example_env) (JString ''no route'') = Some ''no route''"
    by simp
  have g1: "CHR 0x0A \<notin> set ?l" by code_simp
  have g2: "?pre = [] \<or> last ?pre = CHR 0x0A" by (simp add: data_line_def)
  have g3: "concat [?pre @ ?l @ CHR 0x0A # ?rest] = ?pre @ ?l @ CHR 0x0A # ?rest" by simp
  have g4: "for_lines example_env (butlast (split_newline ?pre)) [] = (Falls, ?u')" by code_simp
  have r1: "startsWith (''data: '' @ result_text) ''data: ''" by code_simp
  have r2: "trim (drop 6 (''data: '' @ result_text)) \<noteq> []" by code_simp
  have r3: "JSON_parse example_env (drop 6 (''data: '' @ result_text)) =
      Some (StreamEvent (JString ''z1'') ''result'' ?payload)" by code_simp
  have r4: "get_prop ?payload ''liquidityAvailable'' = Inr (JBool True)" by simp
  have h: "handle_line example_env ?l ?u' =
      (Returns, ?u' @ [ConsoleInfo (JObject ?ps), SetError (Some (''Fatal error: '' @ ''no route'')),
                       SetIsStreaming False, SetIsComplete True])"
    using fatal f1 f2 f3 f4 f5 f6 by blast
  then have g5: "fst (handle_line example_env ?l ?u') = Returns" by simp
  have run: "read_loop example_env [?pre @ ?l @ CHR 0x0A # ?rest] Done [] [] =
      (Returns, snd (handle_line example_env ?l ?u'))"
    using fatal g1 g2 g3 g4 g5 by blast
  have res: "handle_line example_env (''data: '' @ result_text) [] =
      (Returns, [] @ [ConsoleInfo (StreamEvent (JString ''z1'') ''result'' ?payload),
                      SetLiquidityAvailable (JBool True), SetIsStreaming False, SetIsComplete True])"
    using result r1 r2 r3 r4 by blast
  have cnt: "completions (drop (length ([]::ui)) (snd (read_loop example_env
      [?pre @ ?l @ CHR 0x0A # ?rest] Done [] []))) \<le> 1"
    using fatal by blast
  have q: "''toString'' \<in> fst ` set [(''toString'', JNumber 1)]" by simp
  have ts: "to_string (Number_toString example_env) (JString ''no route'') \<noteq> None"
    using fatal by blast
  have nts: "to_string (Number_toString example_env) (JObject [(''toString'', JNumber 1)]) = None"
    using fatal [where qs = "[(''toString'', JNumber 1)]"] q by blast
  show ?thesis
    using run h res cnt ts nts by (simp add: fatal_value_def result_value_def)
qed

text \<open>
  C5 as it is stated fails. The body \<^verbatim>\<open>{"error":null}\<close> contains an \<^verbatim>\<open>error\<close> key, so
  the fatal branch is entered; reading \<^verbatim>\<open>fatalError.error.message\<close> from \<^verbatim>\<open>null\<close>
  throws a \<^verbatim>\<open>TypeError\<close> inside the \<^verbatim>\<open>try\<close> block, the \<^verbatim>\<open>catch\<close> reports a parse
  error, and the loop goes on: the route on the next line is still added and the stream
  is never declared complete. The body \<^verbatim>\<open>{"error":{"message":{"toString":1}}}\<close> goes
  the same way, the \<^verbatim>\<open>TypeError\<close> coming from the template literal that converts the
  message; so does a result event whose \<^verbatim>\<open>data\<close> is \<^verbatim>\<open>null\<close>.
\<close>

theorem error_key_claim_counterexample:
  "JSON_parse example_env error_null_text = Some error_null_value
   \<and> error_in error_null_value = Inr True
   \<and> read_loop example_env [data_line error_null_text @ data_line flat_route_text] Done [] []
     = (Falls,
        [ConsoleInfo error_null_value, ConsoleError error_null_text,
         SetError (Some ''Error parsing server response''),
         ConsoleInfo flat_route_value, SetRoutesAppend (shown_route 1)])
   \<and> read_loop example_env [data_line null_result_text @ data_line flat_route_text] Done [] []
     = (Falls,
        [ConsoleInfo null_result_value, ConsoleError null_result_text,
         SetError (Some ''Error parsing server response''),
         ConsoleInfo flat_route_value, SetRoutesAppend (shown_route 1)])
   \<and> error_in own_toString_value = Inr True
   \<and> read_loop example_env [data_line own_toString_text @ data_line flat_route_text] Done [] []
     = (Falls,
        [ConsoleInfo own_toString_value, ConsoleError own_toString_text,
         SetError (Some ''Error parsing server response''),
         ConsoleInfo flat_route_value, SetRoutesAppend (shown_route 1)])"
  by code_simp

text \<open>
  Claim C6. Take two route events with the same correlation id, one whose payload is
  \<^verbatim>\<open>{route: {...props...}, allowanceTarget}\<close> and one whose payload \<open>flat\<close> has the
  properties \<open>props\<close> and \<^verbatim>\<open>allowanceTarget\<close> side by side; a flat payload has no
  \<^verbatim>\<open>route\<close> property that is truthy. Handled in the same state, each adds one route,
  and the two routes have the same properties with the same values: those of \<open>props\<close>,
  \<^verbatim>\<open>allowanceTarget\<close>, \<^verbatim>\<open>id\<close> set to the correlation id and \<^verbatim>\<open>displayIndex\<close> set to
  the number of routes so far plus one.
\<close>

theorem nested_and_flat_routes_agree:
  assumes "startsWith l1 ''data: ''" and "trim (drop 6 l1) \<noteq> []"
    and "JSON_parse env (drop 6 l1) =
           Some (StreamEvent z ''route''
                   (JObject [(''route'', JObject props), (''allowanceTarget'', target)]))"
    and "startsWith l2 ''data: ''" and "trim (drop 6 l2) \<noteq> []"
    and "JSON_parse env (drop 6 l2) = Some (StreamEvent z ''route'' (JObject flat))"
    and "map_of flat = (map_of props)(''allowanceTarget'' \<mapsto> target)"
    and "\<forall>v. map_of props ''route'' = Some v \<longrightarrow> \<not> truthy v"
  shows "handle_line env l1 u =
           (Falls, u @ [ConsoleInfo (StreamEvent z ''route''
                          (JObject [(''route'', JObject props), (''allowanceTarget'', target)])),
                        SetRoutesAppend (JObject
                          (AList.update ''displayIndex''
                             (JNumber (of_nat (length (routes_of u) + 1)))
                             (AList.update ''id'' z
                                (AList.update ''allowanceTarget'' target props))))])
       \<and> handle_line env l2 u =
           (Falls, u @ [ConsoleInfo (StreamEvent z ''route'' (JObject flat)),
                        SetRoutesAppend (JObject
                          (AList.update ''displayIndex''
                             (JNumber (of_nat (length (routes_of u) + 1)))
                             (AList.update ''id'' z flat)))])
       \<and> map_of (AList.update ''displayIndex'' (JNumber (of_nat (length (routes_of u) + 1)))
                   (AList.update ''id'' z (AList.update ''allowanceTarget'' target props)))
         = map_of (AList.update ''displayIndex'' (JNumber (of_nat (length (routes_of u) + 1)))
                   (AList.update ''id'' z flat))
       \<and> map_of (AList.update ''displayIndex'' (JNumber (of_nat (length (routes_of u) + 1)))
                   (AList.update ''id'' z flat))
         = (map_of props)(''allowanceTarget'' \<mapsto> target, ''id'' \<mapsto> z,
              ''displayIndex'' \<mapsto> JNumber (of_nat (length (routes_of u) + 1)))"
proof -
  let ?n = "JNumber (of_nat (length (routes_of u) + 1))"
  let ?nested = "JObject [(''route'', JObject props), (''allowanceTarget'', target)]"
  let ?r1 = "AList.update ''displayIndex'' ?n
               (AList.update ''id'' z (AList.update ''allowanceTarget'' target props))"
  let ?r2 = "AList.update ''displayIndex'' ?n (AList.update ''id'' z flat)"
  have n1: "normalize_route ?nested (JObject props) target z =
      AList.update ''id'' z (AList.update ''allowanceTarget'' target props)"
    by (simp add: normalize_route_def)
  have h1: "handle_line env l1 u =
      (Falls, u @ [ConsoleInfo (StreamEvent z ''route'' ?nested), SetRoutesAppend (JObject ?r1)])"
    using handle_line_route [OF assms(1-3), of "JObject props" target u]
    by (simp add: n1)
  obtain r where r: "get_prop (JObject flat) ''route'' = Inr r" "\<not> truthy r"
    using assms(7,8) by (cases "map_of props ''route''") auto
  have t: "get_prop (JObject flat) ''allowanceTarget'' = Inr target"
    using assms(7) by simp
  have n2: "normalize_route (JObject flat) r target z = AList.update ''id'' z flat"
    using r(2) by (simp add: normalize_route_def)
  have h2: "handle_line env l2 u =
      (Falls, u @ [ConsoleInfo (StreamEvent z ''route'' (JObject flat)), SetRoutesAppend (JObject ?r2)])"
    using handle_line_route [OF assms(4-6) r(1) t, of u]
    by (simp add: n2)
  have m: "map_of ?r1 = map_of ?r2"
    using assms(7) by (simp add: update_conv')
  have m2: "map_of ?r2 = (map_of props)(''allowanceTarget'' \<mapsto> target, ''id'' \<mapsto> z,
               ''displayIndex'' \<mapsto> ?n)"
    using assms(7) by (simp add: update_conv')
  from h1 h2 m m2 show ?thesis by (intro conjI)
qed

text \<open>C6 on the two example route lines: both add the same route, in the same order of properties.\<close>

theorem nested_and_flat_routes_agree_witness:
  "handle_line example_env (''data: '' @ nested_route_text) []
     = (Falls, [ConsoleInfo nested_route_value, SetRoutesAppend (shown_route 1)])
   \<and> handle_line example_env (''data: '' @ flat_route_text) []
     = (Falls, [ConsoleInfo flat_route_value, SetRoutesAppend (shown_route 1)])"
proof -
  let ?l1 = "''data: '' @ nested_route_text" and ?l2 = "''data: '' @ flat_route_text"
  let ?z = "JString ''z1''" and ?t = "JString ''0xT''"
  let ?flat = "route_fields @ [(''allowanceTarget'', ?t)]"
  have a1: "startsWith ?l1 ''data: ''" by code_simp
  have a2: "trim (drop 6 ?l1) \<noteq> []" by code_simp
  have a3: "JSON_parse example_env (drop 6 ?l1) =
      Some (StreamEvent ?z ''route''
              (JObject [(''route'', JObject route_fields), (''allowanceTarget'', ?t)]))"
    by code_simp
  have a4: "startsWith ?l2 ''data: ''" by code_simp
  have a5: "trim (drop 6 ?l2) \<noteq> []" by code_simp
  have a6: "JSON_parse example_env (drop 6 ?l2) = Some (StreamEvent ?z ''route'' (JObject ?flat))"
    by code_simp
  have a7: "map_of ?flat = (map_of route_fields)(''allowanceTarget'' \<mapsto> ?t)"
    by (simp add: route_fields_def fun_eq_iff)
  have a8: "\<forall>v. map_of route_fields ''route'' = Some v \<longrightarrow> \<not> truthy v"
    by (simp add: route_fields_def)
  have n: "routes_of [] = []" by (simp add: routes_of_def)
  show ?thesis
    using nested_and_flat_routes_agree [OF a1 a2 a3 a4 a5 a6 a7 a8, of "[]"]
    by (simp add: n route_fields_def shown_route_def nested_route_value_def flat_route_value_def)
qed

text \<open>
  Claim C7. A line that does not start with \<^verbatim>\<open>data: \<close> makes no call and leaves the
  state as it is. A line that does and whose remainder is empty or all white space is
  skipped in the same way. A line that does and whose remainder \<^verbatim>\<open>JSON.parse\<close> rejects
  is reported (\<^verbatim>\<open>console.error\<close> with the raw text, and the error
  \<^verbatim>\<open>Error parsing server response\<close>) and the loop goes on with the next line: the
  lines after it end the same way and make exactly the calls, routes and display
  indices included, that they make when the rejected line is not there.
\<close>

theorem line_filter_and_parse_errors:
  "(\<not> startsWith l ''data: '' \<longrightarrow> handle_line env l u = (Falls, u))
   \<and> (startsWith l ''data: '' \<and> (\<forall>c\<in>set (drop 6 l). is_whitespace c) \<longrightarrow>
        handle_line env l u = (Falls, u))
   \<and> (startsWith l ''data: '' \<and> \<not> (\<forall>c\<in>set (drop 6 l). is_whitespace c)
        \<and> JSON_parse env (drop 6 l) = None \<longrightarrow>
        handle_line env l u =
          (Falls, u @ [ConsoleError (drop 6 l), SetError (Some ''Error parsing server response'')])
        \<and> for_lines env (l # rest) u =
            for_lines env rest
              (u @ [ConsoleError (drop 6 l), SetError (Some ''Error parsing server response'')])
        \<and> fst (for_lines env (l # rest) u) = fst (for_lines env rest u)
        \<and> drop (length u + 2) (snd (for_lines env (l # rest) u)) =
            drop (length u) (snd (for_lines env rest u)))"
proof (intro conjI impI)
  show "handle_line env l u = (Falls, u)" if "\<not> startsWith l ''data: ''"
    using that by (simp add: handle_line_def)
  show "handle_line env l u = (Falls, u)"
    if "startsWith l ''data: '' \<and> (\<forall>c\<in>set (drop 6 l). is_whitespace c)"
    using that by (simp add: handle_line_def trim_empty_iff)
next
  let ?r = "[ConsoleError (drop 6 l), SetError (Some ''Error parsing server response'')]"
  assume a: "startsWith l ''data: '' \<and> \<not> (\<forall>c\<in>set (drop 6 l). is_whitespace c)
        \<and> JSON_parse env (drop 6 l) = None"
  then have h: "handle_line env l u = (Falls, u @ ?r)"
    by (intro handle_line_parse_error) (simp_all add: trim_empty_iff)
  then show "handle_line env l u = (Falls, u @ ?r)" .
  from h show f: "for_lines env (l # rest) u = for_lines env rest (u @ ?r)"
    by simp
  have "length (routes_of (u @ ?r)) = length (routes_of u)"
    by (simp add: routes_of_append)
  from for_lines_rebase [OF this, of env rest] f
  show "fst (for_lines env (l # rest) u) = fst (for_lines env rest u)"
    and "drop (length u + 2) (snd (for_lines env (l # rest) u)) =
            drop (length u) (snd (for_lines env rest u))"
    by simp_all
qed

text \<open>
  C7 on a comment line, on a data line of blanks, and on a data line that is not JSON
  followed by a route line.
\<close>

theorem line_filter_and_parse_errors_witness:
  "handle_line example_env '': keep-alive'' [SetIsStreaming True] = (Falls, [SetIsStreaming True])
   \<and> handle_line example_env ''data:    '' [SetIsStreaming True] = (Falls, [SetIsStreaming True])
   \<and> for_lines example_env [''data: {oops'', ''data: '' @ flat_route_text] []
     = for_lines example_env [''data: '' @ flat_route_text]
         [ConsoleError ''{oops'', SetError (Some ''Error parsing server response'')]
   \<and> for_lines example_env [''data: '' @ flat_route_text]
         [ConsoleError ''{oops'', SetError (Some ''Error parsing server response'')]
     = (Falls, [ConsoleError ''{oops'', SetError (Some ''Error parsing server response''),
                ConsoleInfo flat_route_value, SetRoutesAppend (shown_route 1)])"
proof -
  have c: "\<not> startsWith '': keep-alive'' ''data: ''" by code_simp
  have b: "startsWith ''data:    '' ''data: '' \<and> (\<forall>c\<in>set (drop 6 ''data:    ''). is_whitespace c)"
    by (simp add: startsWith_def is_whitespace_def)
  have p: "startsWith ''data: {oops'' ''data: ''
      \<and> \<not> (\<forall>c\<in>set (drop 6 ''data: {oops''). is_whitespace c)
      \<and> JSON_parse example_env (drop 6 ''data: {oops'') = None"
    by (simp add: startsWith_def is_whitespace_def example_env_def nested_route_text_def
        flat_route_text_def result_text_def fatal_text_def error_null_text_def
        null_result_text_def own_toString_text_def)
  have later: "for_lines example_env [''data: '' @ flat_route_text]
         [ConsoleError ''{oops'', SetError (Some ''Error parsing server response'')]
     = (Falls, [ConsoleError ''{oops'', SetError (Some ''Error parsing server response''),
                ConsoleInfo flat_route_value, SetRoutesAppend (shown_route 1)])"
    by code_simp
  from line_filter_and_parse_errors
         [of "'': keep-alive''" example_env "[SetIsStreaming True]" "[]"] c
  have 1: "handle_line example_env '': keep-alive'' [SetIsStreaming True] = (Falls, [SetIsStreaming True])"
    by blast
  from line_filter_and_parse_errors
         [of "''data:    ''" example_env "[SetIsStreaming True]" "[]"] b
  have 2: "handle_line example_env ''data:    '' [SetIsStreaming True] = (Falls, [SetIsStreaming True])"
    by blast
  from line_filter_and_parse_errors
         [of "''data: {oops''" example_env "[]" "[''data: '' @ flat_route_text]"] p
  have 3: "for_lines example_env (''data: {oops'' # [''data: '' @ flat_route_text]) [] =
      for_lines example_env [''data: '' @ flat_route_text]
        ([] @ [ConsoleError (drop 6 ''data: {oops''),
               SetError (Some ''Error parsing server response'')])"
    by blast
  have d: "drop 6 ''data: {oops'' = ''{oops''" by simp
  from 1 2 3 later show ?thesis
    by (simp only: d append_Nil simp_thms)
qed

text \<open>
  Claim C9. When the reader is exhausted while the buffer holds text that no line feed
  ends (\<open>frag\<close>), that text is dropped: the run over a stream \<open>pre @ frag\<close>, where \<open>pre\<close>
  is empty or ends with a line feed, ends as the run over \<open>pre\<close> alone and makes the
  same calls. A last data line without its line feed is never parsed.
\<close>

theorem unterminated_tail_dropped:
  assumes "CHR 0x0A \<notin> set frag" and "pre = [] \<or> last pre = CHR 0x0A"
    and "concat chunks = pre @ frag"
  shows "read_loop env chunks e [] u = read_loop env [pre] e [] u
       \<and> startStreaming env (Body chunks e) u = startStreaming env (Body [pre] e) u"
proof -
  have "split_newline (pre @ frag) =
      butlast (split_newline pre) @ split_newline (last (split_newline pre) @ frag)"
    by (rule split_newline_append)
  then have "butlast (split_newline (pre @ frag)) = butlast (split_newline pre)"
    using assms(1,2) by (simp add: aligned_last_split split_newline_no_newline)
  then have r: "read_loop env chunks e [] w = read_loop env [pre] e [] w" for w
    using assms(3) by (simp add: read_loop_concat del: read_loop.simps)
  have "startStreaming env (Body chunks e) u = startStreaming env (Body [pre] e) u"
    unfolding startStreaming_def Let_def connection.case r ..
  with r show ?thesis by simp
qed

text \<open>
  C9 on a stream of two route lines of which the second lacks its line feed: one route
  is added, where the same stream with the line feed adds two.
\<close>

theorem unterminated_tail_dropped_witness:
  "read_loop example_env [data_line nested_route_text @ ''data: '' @ flat_route_text] Done [] []
     = (Falls, [ConsoleInfo nested_route_value, SetRoutesAppend (shown_route 1)])
   \<and> read_loop example_env [data_line nested_route_text @ data_line flat_route_text] Done [] []
     = (Falls, [ConsoleInfo nested_route_value, SetRoutesAppend (shown_route 1),
                ConsoleInfo flat_route_value, SetRoutesAppend (shown_route 2)])"
proof -
  let ?pre = "data_line nested_route_text" and ?frag = "''data: '' @ flat_route_text"
  have f: "CHR 0x0A \<notin> set ?frag" by code_simp
  have a: "?pre = [] \<or> last ?pre = CHR 0x0A" by (simp add: data_line_def)
  have c: "concat [?pre @ ?frag] = ?pre @ ?frag" by simp
  have only: "read_loop example_env [?pre] Done [] []
     = (Falls, [ConsoleInfo nested_route_value, SetRoutesAppend (shown_route 1)])"
    by code_simp
  have both: "read_loop example_env [?pre @ data_line flat_route_text] Done [] []
     = (Falls, [ConsoleInfo nested_route_value, SetRoutesAppend (shown_route 1),
                ConsoleInfo flat_route_value, SetRoutesAppend (shown_route 2)])"
    by code_simp
  from unterminated_tail_dropped [OF f a c, of example_env Done "[]"]
  have "read_loop example_env [?pre @ ?frag] Done [] [] = read_loop example_env [?pre] Done [] []"
    by (rule conjunct1)
  with only both show ?thesis by (simp only: simp_thms)
qed

text \<open>
  Claim C10. The prefix test is \<^verbatim>\<open>line.startsWith("data: ")\<close>, six characters with the
  space: a line \<^verbatim>\<open>data:\<close> followed by a payload that does not begin with a space makes
  no call and leaves the state as it is, whatever \<^verbatim>\<open>JSON.parse\<close> would make of the
  payload, and the lines after it are handled as if it were not there.
\<close>

theorem data_prefix_needs_space:
  assumes "payload = [] \<or> hd payload \<noteq> CHR '' ''"
  shows "handle_line env (''data:'' @ payload) u = (Falls, u)
       \<and> for_lines env ((''data:'' @ payload) # rest) u = for_lines env rest u"
  using startsWith_data_no_space [OF assms] by (simp add: handle_line_def)

text \<open>
  C10 on the flat route text, which \<open>example_env\<close> parses: behind \<^verbatim>\<open>data:\<close> it is
  discarded, behind \<^verbatim>\<open>data: \<close> it adds a route.
\<close>

theorem data_prefix_needs_space_witness:
  "JSON_parse example_env flat_route_text = Some flat_route_value
   \<and> handle_line example_env (''data:'' @ flat_route_text) [] = (Falls, [])
   \<and> handle_line example_env (''data: '' @ flat_route_text) []
     = (Falls, [ConsoleInfo flat_route_value, SetRoutesAppend (shown_route 1)])"
proof -
  have p: "JSON_parse example_env flat_route_text = Some flat_route_value" by code_simp
  have h: "flat_route_text = [] \<or> hd flat_route_text \<noteq> CHR '' ''"
    by (simp add: flat_route_text_def)
  have s: "handle_line example_env (''data: '' @ flat_route_text) []
     = (Falls, [ConsoleInfo flat_route_value, SetRoutesAppend (shown_route 1)])"
    by code_simp
  from data_prefix_needs_space [OF h, of example_env "[]" "[]"]
  have "handle_line example_env (''data:'' @ flat_route_text) [] = (Falls, [])"
    by (rule conjunct1)
  with p s show ?thesis by (simp only: simp_thms)
qed

end
